theory Spec2Isabelle
  imports Complex_Main "HOL-Library.Word" "HOL-Library.AList" "HOL-Library.Sublist"
    "HOL-Library.Log_Nat"
begin

section \<open>JavaScript strings\<close>

text \<open>
  A JavaScript string is a sequence of UTF-16 code units.  ASCII literals of the source
  are written \<open>js ''...''\<close>.
\<close>

type_synonym jschar = "16 word"
type_synonym jsstring = "jschar list"

definition js :: "string \<Rightarrow> jsstring" where
  "js s = map of_char s"

text \<open>
  The characters matched by \<open>\s\<close> in a regular expression and removed by
  \<open>String.prototype.trim\<close>: WhiteSpace and LineTerminator of ECMAScript.
\<close>

definition is_space :: "jschar \<Rightarrow> bool" where
  "is_space c =
     (c = 0x09 \<or> c = 0x0A \<or> c = 0x0B \<or> c = 0x0C \<or> c = 0x0D \<or> c = 0x20 \<or> c = 0xA0 \<or>
      c = 0x1680 \<or> (0x2000 \<le> c \<and> c \<le> 0x200A) \<or> c = 0x2028 \<or> c = 0x2029 \<or>
      c = 0x202F \<or> c = 0x205F \<or> c = 0x3000 \<or> c = 0xFEFF)"

definition trimStart :: "jsstring \<Rightarrow> jsstring" where
  "trimStart s = dropWhile is_space s"

definition trimEnd :: "jsstring \<Rightarrow> jsstring" where
  "trimEnd s = rev (dropWhile is_space (rev s))"

definition trim :: "jsstring \<Rightarrow> jsstring" where
  "trim s = trimEnd (trimStart s)"

definition startsWith :: "jsstring \<Rightarrow> jsstring \<Rightarrow> bool" where
  "startsWith s p = (take (length p) s = p)"

definition endsWith :: "jsstring \<Rightarrow> jsstring \<Rightarrow> bool" where
  "endsWith s p = (length p \<le> length s \<and> drop (length s - length p) s = p)"

text \<open>\<open>s.includes(p)\<close>: \<open>p\<close> occurs in \<open>s\<close> at some position.\<close>

fun includes_str :: "jsstring \<Rightarrow> jsstring \<Rightarrow> bool" where
  "includes_str [] p = (p = [])"
| "includes_str (c # cs) p = (startsWith (c # cs) p \<or> includes_str cs p)"

text \<open>
  Case-insensitive matching (flag \<open>i\<close>, no flag \<open>u\<close>) of an ASCII pattern: a code unit
  matches an ASCII letter exactly when it is that letter in either case, since
  canonicalisation never maps a code unit of 128 or more to one below 128.
\<close>

definition canonicalize :: "jschar \<Rightarrow> jschar" where
  "canonicalize c = (if 0x61 \<le> c \<and> c \<le> 0x7A then c - 0x20 else c)"

definition startsWith_ci :: "jsstring \<Rightarrow> jsstring \<Rightarrow> bool" where
  "startsWith_ci s p = (map canonicalize (take (length p) s) = map canonicalize p)"

section \<open>Errors and the model client\<close>

text \<open>
  A thrown value or a rejected promise is \<open>Inl\<close> of the error; the message of a
  JavaScript \<open>Error\<close> is kept.
\<close>

datatype error = Error jsstring

text \<open>
  The outcome of one \<open>ai.models.generateContent\<close> call is an input of the model: the
  call either rejects or resolves to a response whose \<open>text\<close> may be undefined.
\<close>

record GenerateContentResponse =
  response_text :: "jsstring option"

text \<open>\<open>a || b\<close> on an optional string: undefined and the empty string are both falsy.\<close>

definition or_else :: "jsstring option \<Rightarrow> jsstring \<Rightarrow> jsstring" where
  "or_else a b = (case a of None \<Rightarrow> b | Some s \<Rightarrow> (if s = [] then b else s))"

section \<open>Response cleaning (services/gemini.ts)\<close>

definition fence :: jsstring where
  "fence = js ''```''"

text \<open>\<open>.replace(/^```html\s*/i, '')\<close>\<close>

definition replace_leading_html_fence :: "jsstring \<Rightarrow> jsstring" where
  "replace_leading_html_fence s =
     (if startsWith_ci s (js ''```html'') then dropWhile is_space (drop 7 s) else s)"

text \<open>\<open>.replace(/^```\s*/i, '')\<close>\<close>

definition replace_leading_fence :: "jsstring \<Rightarrow> jsstring" where
  "replace_leading_fence s =
     (if startsWith s fence then dropWhile is_space (drop 3 s) else s)"

text \<open>
  \<open>.replace(/```\s*$/i, '')\<close>: the leftmost position at which three backquotes are
  followed by nothing but white space up to the end of the string; the match, which
  reaches the end, is removed.
\<close>

definition fence_to_end :: "jsstring \<Rightarrow> bool" where
  "fence_to_end s = (startsWith s fence \<and> list_all is_space (drop 3 s))"

fun replace_trailing_fence :: "jsstring \<Rightarrow> jsstring" where
  "replace_trailing_fence [] = []"
| "replace_trailing_fence (c # cs) =
     (if fence_to_end (c # cs) then [] else c # replace_trailing_fence cs)"

definition cleanResponse :: "jsstring \<Rightarrow> jsstring" where
  "cleanResponse t =
     trim (replace_trailing_fence (replace_leading_fence (replace_leading_html_fence t)))"

text \<open>What the claims call a leading and a trailing code fence of a string.\<close>

definition leading_fence :: "jsstring \<Rightarrow> bool" where
  "leading_fence s = startsWith s fence"

definition trailing_fence :: "jsstring \<Rightarrow> bool" where
  "trailing_fence s = endsWith (trimEnd s) fence"

definition trimmed :: "jsstring \<Rightarrow> bool" where
  "trimmed s = (s = [] \<or> (\<not> is_space (hd s) \<and> \<not> is_space (last s)))"

section \<open>Numbers\<close>

text \<open>
  A JavaScript Number is an IEEE-754 double: not a number, an infinity, or a finite
  value, kept as the rational it denotes.  The sign of a zero is not tracked; no
  operation of the code modelled here divides by zero or tells the two zeros apart.
\<close>

datatype double = NaN | PosInf | NegInf | Finite rat

text \<open>For \<open>0 < x\<close>, the exponent \<open>e\<close> with \<open>2\<^sup>e \<le> x < 2\<^sup>e\<^sup>+\<^sup>1\<close>.\<close>

definition ilog2 :: "rat \<Rightarrow> int" where
  "ilog2 x = (if 1 \<le> x then bitlen \<lfloor>x\<rfloor> - 1 else - bitlen (\<lceil>1 / x\<rceil> - 1))"

text \<open>The nearest integer, the even one of two that are equally near.\<close>

definition round_half_even :: "rat \<Rightarrow> int" where
  "round_half_even r =
     (let f = \<lfloor>r\<rfloor>; d = r - of_int f
      in if d < 1 / 2 then f else if 1 / 2 < d then f + 1 else if even f then f else f + 1)"

text \<open>
  Rounding of a positive rational to 53 significant bits, or to a multiple of
  \<open>2\<^sup>-\<^sup>1\<^sup>0\<^sup>7\<^sup>4\<close> in the subnormal range, and the rounding of any rational to a double
  (round to nearest, ties to even): a result of \<open>2\<^sup>1\<^sup>0\<^sup>2\<^sup>4\<close> or more, that is one whose
  exponent is 1024 or more, is an infinity.
\<close>

definition round_magnitude :: "rat \<Rightarrow> rat" where
  "round_magnitude x =
     (let p = min (52 - ilog2 x) 1074
      in of_int (round_half_even (x * 2 powi p)) * 2 powi (- p))"

definition round_double :: "rat \<Rightarrow> double" where
  "round_double x =
     (if x = 0 then Finite 0
      else if 0 < x
        then (let y = round_magnitude x in if 1024 \<le> ilog2 y then PosInf else Finite y)
      else (let y = round_magnitude (- x) in if 1024 \<le> ilog2 y then NegInf else Finite (- y)))"

definition infinity :: "bool \<Rightarrow> double" where
  "infinity neg = (if neg then NegInf else PosInf)"

fun negative :: "double \<Rightarrow> bool" where
  "negative NegInf = True"
| "negative (Finite a) = (a < 0)"
| "negative PosInf = False"
| "negative NaN = False"

text \<open>The operators \<open>+\<close>, \<open>*\<close>, \<open>/\<close> and \<open><\<close> on Numbers.\<close>

fun dplus :: "double \<Rightarrow> double \<Rightarrow> double" where
  "dplus NaN b = NaN"
| "dplus a NaN = NaN"
| "dplus (Finite a) (Finite b) = round_double (a + b)"
| "dplus PosInf NegInf = NaN"
| "dplus NegInf PosInf = NaN"
| "dplus PosInf b = PosInf"
| "dplus NegInf b = NegInf"
| "dplus (Finite a) b = b"

fun dtimes :: "double \<Rightarrow> double \<Rightarrow> double" where
  "dtimes NaN b = NaN"
| "dtimes a NaN = NaN"
| "dtimes (Finite a) (Finite b) = round_double (a * b)"
| "dtimes a b =
     (if a = Finite 0 \<or> b = Finite 0 then NaN else infinity (negative a \<noteq> negative b))"

fun ddivide :: "double \<Rightarrow> double \<Rightarrow> double" where
  "ddivide NaN b = NaN"
| "ddivide a NaN = NaN"
| "ddivide (Finite a) (Finite b) =
     (if b = 0 then (if a = 0 then NaN else infinity (a < 0)) else round_double (a / b))"
| "ddivide (Finite a) b = Finite 0"
| "ddivide a (Finite b) = infinity (negative a \<noteq> (b < 0))"
| "ddivide a b = NaN"

fun dless :: "double \<Rightarrow> double \<Rightarrow> bool" where
  "dless NaN b = False"
| "dless a NaN = False"
| "dless (Finite a) (Finite b) = (a < b)"
| "dless a NegInf = False"
| "dless NegInf b = True"
| "dless PosInf b = False"
| "dless (Finite a) PosInf = True"





section \<open>Types (types.ts)\<close>

datatype SupportedFileType = Image | Pdf | Csv | Excel | Text | Markdown | Video

text \<open>
  \<open>OutputType\<close> is a union of ten string literals; \<open>OutputType_str\<close> gives the
  literal of each.
\<close>

datatype OutputType =
    FieldSimulator | DamageDetective | CommissionTycoon | ObjectionArena
  | InspectionWalkthrough | FlashcardDrill | InteractiveTimeline | ScenarioBuilder
  | PitchPerfector | Auto

fun OutputType_str :: "OutputType \<Rightarrow> jsstring" where
  "OutputType_str FieldSimulator = js ''field-simulator''"
| "OutputType_str DamageDetective = js ''damage-detective''"
| "OutputType_str CommissionTycoon = js ''commission-tycoon''"
| "OutputType_str ObjectionArena = js ''objection-arena''"
| "OutputType_str InspectionWalkthrough = js ''inspection-walkthrough''"
| "OutputType_str FlashcardDrill = js ''flashcard-drill''"
| "OutputType_str InteractiveTimeline = js ''interactive-timeline''"
| "OutputType_str ScenarioBuilder = js ''scenario-builder''"
| "OutputType_str PitchPerfector = js ''pitch-perfector''"
| "OutputType_str Auto = js ''auto''"

text \<open>
  A value of a row is a string or a number.  \<open>Num l\<close> is the Number denoted by the
  decimal literal \<open>l\<close>; its rounding to a double is not modelled.
\<close>

datatype cell = Str jsstring | Num jsstring

text \<open>
  A \<open>DataRow\<close> is a plain object: its own properties as an association list with
  distinct keys, in the order of their creation.  (JavaScript lists keys that are array
  indices first; only the set and the number of the keys are used below.)
\<close>

type_synonym DataRow = "(jsstring \<times> cell) list"

definition Object_keys :: "DataRow \<Rightarrow> jsstring list" where
  "Object_keys row = map fst row"

record PageContent =
  pageNumber :: nat
  page_text :: jsstring
  page_imageBase64 :: "jsstring option"

record VideoFrame =
  timestamp :: double
  frame_imageBase64 :: "jsstring option"

record ExtractedContent =
  content_text :: "jsstring option"
  pages :: "PageContent list option"
  data :: "DataRow list option"
  frames :: "VideoFrame list option"
  rawBase64 :: "jsstring option"

definition no_content :: ExtractedContent where
  "no_content = \<lparr>content_text = None, pages = None, data = None, frames = None,
                  rawBase64 = None\<rparr>"

record FileMetadata =
  fileName :: jsstring
  fileSize :: nat
  pageCount :: "nat option"
  rowCount :: "nat option"
  columnCount :: "nat option"

text \<open>
  A browser \<open>File\<close>: its name, declared media type and size, and the string that
  \<open>file.text()\<close> resolves to.
\<close>

record File =
  file_name :: jsstring
  file_type :: jsstring
  file_size :: nat
  file_text :: jsstring

record ParsedFile =
  originalFile :: File
  parsed_type :: SupportedFileType
  mimeType :: jsstring
  extractedContent :: ExtractedContent
  metadata :: FileMetadata

section \<open>Generation, refinement and auto-selection (services/gemini.ts)\<close>

text \<open>
  The prompt that is sent does not influence what the functions do with the outcome of
  the call, so its construction is not modelled: each function takes the outcome of its
  one \<open>generateContent\<close> call.  A \<open>catch\<close> that rethrows keeps the error.
\<close>

definition failed_placeholder :: jsstring where
  "failed_placeholder = js ''<!-- Failed to generate content -->''"

definition generateTraining :: "error + GenerateContentResponse \<Rightarrow> error + jsstring" where
  "generateTraining call =
     (case call of
        Inl err \<Rightarrow> Inl err
      | Inr response \<Rightarrow>
          Inr (cleanResponse (or_else (response_text response) failed_placeholder)))"

definition refineApp :: "jsstring \<Rightarrow> error + GenerateContentResponse \<Rightarrow> error + jsstring" where
  "refineApp currentHtml call =
     (case call of
        Inl err \<Rightarrow> Inl err
      | Inr response \<Rightarrow>
          Inr (cleanResponse (or_else (response_text response) currentHtml)))"

fun getDefaultOutputType :: "SupportedFileType \<Rightarrow> OutputType" where
  "getDefaultOutputType Image = DamageDetective"
| "getDefaultOutputType Video = InspectionWalkthrough"
| "getDefaultOutputType Csv = CommissionTycoon"
| "getDefaultOutputType Excel = CommissionTycoon"
| "getDefaultOutputType Pdf = FlashcardDrill"
| "getDefaultOutputType Text = FlashcardDrill"
| "getDefaultOutputType Markdown = FlashcardDrill"

definition validTypes :: "OutputType list" where
  "validTypes =
     [FieldSimulator, DamageDetective, CommissionTycoon,
      ObjectionArena, InspectionWalkthrough, FlashcardDrill,
      InteractiveTimeline, ScenarioBuilder, PitchPerfector]"

text \<open>\<open>.replace(/['"]/g, '')\<close>\<close>

definition strip_quotes :: "jsstring \<Rightarrow> jsstring" where
  "strip_quotes s = filter (\<lambda>c. c \<noteq> 0x27 \<and> c \<noteq> 0x22) s"

text \<open>
  \<open>String.prototype.toLowerCase\<close> is a builtin of the runtime over all of Unicode; it
  is the parameter \<open>toLowerCase\<close>.  The function returns the identifier as the string
  it is at run time.
\<close>

definition autoSelectOutputType ::
  "(jsstring \<Rightarrow> jsstring) \<Rightarrow> ParsedFile \<Rightarrow> error + GenerateContentResponse \<Rightarrow> error + jsstring"
where
  "autoSelectOutputType toLowerCase parsedFile call =
     (case call of
        Inr response \<Rightarrow>
          (let result = strip_quotes (toLowerCase (trim (or_else (response_text response) [])))
           in if result \<in> set (map OutputType_str validTypes) then Inr result
              else Inr (OutputType_str (getDefaultOutputType (parsed_type parsedFile))))
      | Inl err \<Rightarrow> Inr (OutputType_str (getDefaultOutputType (parsed_type parsedFile))))"

text \<open>Lower-casing of the ASCII letters, for concrete runs.\<close>

definition ascii_lower :: "jsstring \<Rightarrow> jsstring" where
  "ascii_lower s = map (\<lambda>c. if 0x41 \<le> c \<and> c \<le> 0x5A then c + 0x20 else c) s"

section \<open>File classification (services/file-processor.ts)\<close>

text \<open>\<open>/\.(e1|...|en)$/.test(name)\<close>: the name ends with a dot and one of the alternatives.\<close>

definition test_extension :: "string list \<Rightarrow> jsstring \<Rightarrow> bool" where
  "test_extension alts name = list_ex (\<lambda>e. endsWith name (js (CHR ''.'' # e))) alts"

definition detectFileType :: "(jsstring \<Rightarrow> jsstring) \<Rightarrow> File \<Rightarrow> error + SupportedFileType" where
  "detectFileType toLowerCase file =
     (let mime = toLowerCase (file_type file);
          name = toLowerCase (file_name file)
      in if startsWith mime (js ''image/'') then Inr Image
         else if mime = js ''application/pdf'' then Inr Pdf
         else if mime = js ''text/csv'' then Inr Csv
         else if includes_str mime (js ''spreadsheet'') \<or> includes_str mime (js ''excel'')
           then Inr Excel
         else if startsWith mime (js ''video/'') then Inr Video
         else if mime = js ''text/markdown'' then Inr Markdown
         else if startsWith mime (js ''text/'') then Inr Text
         else if endsWith name (js ''.csv'') then Inr Csv
         else if endsWith name (js ''.xlsx'') \<or> endsWith name (js ''.xls'') then Inr Excel
         else if endsWith name (js ''.md'') \<or> endsWith name (js ''.markdown'')
           then Inr Markdown
         else if endsWith name (js ''.txt'') then Inr Text
         else if endsWith name (js ''.pdf'') then Inr Pdf
         else if test_extension [''mp4'', ''mov'', ''webm'', ''avi'', ''mkv''] name
           then Inr Video
         else if test_extension [''jpg'', ''jpeg'', ''png'', ''gif'', ''webp'', ''svg'', ''bmp''] name
           then Inr Image
         else Inl (Error (js ''Unsupported file type: '' @ (if mime = [] then name else mime))))"

text \<open>
  The vocabulary of the claims about classification: a (lower-cased) media type in a
  known category is one that passes one of the seven tests, and the known extensions
  with the type each implies.
\<close>

definition known_media_type :: "jsstring \<Rightarrow> bool" where
  "known_media_type mime =
     (startsWith mime (js ''image/'') \<or> mime = js ''application/pdf'' \<or> mime = js ''text/csv'' \<or>
      includes_str mime (js ''spreadsheet'') \<or> includes_str mime (js ''excel'') \<or>
      startsWith mime (js ''video/'') \<or> mime = js ''text/markdown'' \<or>
      startsWith mime (js ''text/''))"

definition extension_table :: "(string \<times> SupportedFileType) list" where
  "extension_table =
     [(''.csv'', Csv), (''.xlsx'', Excel), (''.xls'', Excel), (''.md'', Markdown),
      (''.markdown'', Markdown), (''.txt'', Text), (''.pdf'', Pdf),
      (''.mp4'', Video), (''.mov'', Video), (''.webm'', Video), (''.avi'', Video),
      (''.mkv'', Video),
      (''.jpg'', Image), (''.jpeg'', Image), (''.png'', Image), (''.gif'', Image),
      (''.webp'', Image), (''.svg'', Image), (''.bmp'', Image)]"

definition known_extension :: "jsstring \<Rightarrow> bool" where
  "known_extension name = list_ex (\<lambda>(e, t). endsWith name (js e)) extension_table"

section \<open>Metadata\<close>

text \<open>
  \<open>content.data?.[0]\<close> is an object when it exists, hence truthy; without a first row
  the column count is undefined.  The \<open>duration\<close> field of the metadata is never
  written and is left out.
\<close>

definition extractMetadata :: "File \<Rightarrow> SupportedFileType \<Rightarrow> ExtractedContent \<Rightarrow> FileMetadata" where
  "extractMetadata file ty content =
     \<lparr>fileName = file_name file,
      fileSize = file_size file,
      pageCount = map_option length (pages content),
      rowCount = map_option length (data content),
      columnCount =
        (case data content of
           Some (row # _) \<Rightarrow> Some (length (Object_keys row))
         | _ \<Rightarrow> None)\<rparr>"

section \<open>CSV extraction\<close>

text \<open>\<open>s.split(c)\<close> for a separator of one code unit.\<close>

fun split_on :: "jschar \<Rightarrow> jsstring \<Rightarrow> jsstring list" where
  "split_on sep [] = [] # []"
| "split_on sep (c # cs) =
     (if c = sep then [] # split_on sep cs
      else (case split_on sep cs of
              w # ws \<Rightarrow> (c # w) # ws
            | [] \<Rightarrow> [c] # []))"

text \<open>\<open>xs[i]\<close>, undefined out of range.\<close>

definition at_index :: "'a list \<Rightarrow> nat \<Rightarrow> 'a option" where
  "at_index xs i = (if i < length xs then Some (xs ! i) else None)"

text \<open>
  The loop of \<open>parseCsvLine\<close> with its three variables.  \<open>for (const char of line)\<close>
  goes by code points; both code units of a surrogate pair fall in the last branch and
  are appended in order, so going by code units gives the same strings.
\<close>

fun parseCsvLine_loop :: "jsstring \<Rightarrow> jsstring list \<Rightarrow> jsstring \<Rightarrow> bool \<Rightarrow> jsstring list" where
  "parseCsvLine_loop [] result current inQuotes = result @ [trim current]"
| "parseCsvLine_loop (char # rest) result current inQuotes =
     (if char = 0x22 then parseCsvLine_loop rest result current (\<not> inQuotes)
      else if char = 0x2C \<and> \<not> inQuotes
        then parseCsvLine_loop rest (result @ [trim current]) [] inQuotes
      else parseCsvLine_loop rest result (current @ [char]) inQuotes)"

definition parseCsvLine :: "jsstring \<Rightarrow> jsstring list" where
  "parseCsvLine line = parseCsvLine_loop line [] [] False"

text \<open>
  \<open>parseFloat\<close> (ECMAScript): after leading white space, the longest prefix that is a
  \<open>StrDecimalLiteral\<close>, that is an optional sign followed by \<open>Infinity\<close> or by digits
  with an optional fraction and an optional exponent, at least one digit before the
  exponent.  The result is that literal, or \<open>None\<close> for NaN when there is no such prefix.
\<close>

definition is_digit :: "jschar \<Rightarrow> bool" where
  "is_digit c = (0x30 \<le> c \<and> c \<le> 0x39)"

definition is_sign :: "jschar \<Rightarrow> bool" where
  "is_sign c = (c = 0x2B \<or> c = 0x2D)"

definition take_sign :: "jsstring \<Rightarrow> jsstring" where
  "take_sign s = (case s of c # _ \<Rightarrow> (if is_sign c then [c] else []) | [] \<Rightarrow> [])"

definition exponent_part :: "jsstring \<Rightarrow> jsstring" where
  "exponent_part s =
     (case s of
        [] \<Rightarrow> []
      | c # cs \<Rightarrow>
          (if c = 0x65 \<or> c = 0x45
           then (let sg = take_sign cs;
                     ds = takeWhile is_digit (drop (length sg) cs)
                 in if ds = [] then [] else c # sg @ ds)
           else []))"

definition fraction_part :: "jsstring \<Rightarrow> jsstring" where
  "fraction_part s =
     (case s of
        [] \<Rightarrow> []
      | c # cs \<Rightarrow> (if c = 0x2E then c # takeWhile is_digit cs else []))"

definition parseFloat :: "jsstring \<Rightarrow> jsstring option" where
  "parseFloat input =
     (let s = trimStart input;
          sg = take_sign s;
          r = drop (length sg) s
      in if startsWith r (js ''Infinity'') then Some (sg @ js ''Infinity'')
         else (let ip = takeWhile is_digit r;
                   fp = fraction_part (drop (length ip) r)
               in if ip = [] \<and> length fp \<le> 1 then None
                  else Some (sg @ ip @ fp @ exponent_part (drop (length ip + length fp) r))))"

text \<open>\<open>isNaN(numValue) ? value : numValue\<close>\<close>

definition coerce :: "jsstring \<Rightarrow> cell" where
  "coerce v = (case parseFloat v of None \<Rightarrow> Str v | Some l \<Rightarrow> Num l)"

text \<open>
  \<open>row[header] = v\<close> on an object created by \<open>{}\<close>: an own property is created or
  overwritten, except for the key \<open>__proto__\<close>, which reaches the setter inherited from
  \<open>Object.prototype\<close>; that setter ignores a string or a number and creates nothing.
\<close>

definition assign :: "DataRow \<Rightarrow> jsstring \<Rightarrow> cell \<Rightarrow> DataRow" where
  "assign row k v = (if k = js ''__proto__'' then row else AList.update k v row)"

text \<open>The body of \<open>headers.forEach((header, idx) => ...)\<close>, from index \<open>idx\<close> on.\<close>

fun forEach_header :: "jsstring list \<Rightarrow> nat \<Rightarrow> jsstring list \<Rightarrow> DataRow \<Rightarrow> DataRow" where
  "forEach_header [] idx vals row = row"
| "forEach_header (header # hs) idx vals row =
     (let v = or_else (at_index vals idx) []
      in forEach_header hs (Suc idx) vals (assign row header (coerce v)))"

definition csv_lines :: "jsstring \<Rightarrow> jsstring list" where
  "csv_lines t = filter (\<lambda>line. trim line \<noteq> []) (split_on 0x0A t)"

definition csv_headers :: "File \<Rightarrow> jsstring list" where
  "csv_headers file = (case csv_lines (file_text file) of [] \<Rightarrow> [] | l # _ \<Rightarrow> parseCsvLine l)"

text \<open>
  \<open>formatDataAsText\<close> prints Number values, which needs \<open>Number::toString\<close>; it is the
  parameter \<open>formatDataAsText\<close> of the two tabular extractors.
\<close>

definition processCsv ::
  "(jsstring list \<Rightarrow> DataRow list \<Rightarrow> jsstring) \<Rightarrow> File \<Rightarrow> ExtractedContent" where
  "processCsv formatDataAsText file =
     (case csv_lines (file_text file) of
        [] \<Rightarrow> no_content\<lparr>content_text := Some [], data := Some []\<rparr>
      | l # ls \<Rightarrow>
          (let headers = parseCsvLine l;
               rows = map (\<lambda>line. forEach_header headers 0 (parseCsvLine line) []) ls
           in no_content\<lparr>data := Some rows,
                          content_text := Some (formatDataAsText headers rows)\<rparr>))"

section \<open>Excel extraction\<close>

text \<open>
  The rows that \<open>XLSX.utils.sheet_to_json\<close> gives for the first sheet, or the error of
  the library, are an input.
\<close>

definition processExcel ::
  "(jsstring list \<Rightarrow> DataRow list \<Rightarrow> jsstring) \<Rightarrow> error + DataRow list \<Rightarrow> error + ExtractedContent"
where
  "processExcel formatDataAsText sheet =
     (case sheet of
        Inl err \<Rightarrow> Inl err
      | Inr jsonData \<Rightarrow>
          (let headers = (case jsonData of [] \<Rightarrow> [] | row # _ \<Rightarrow> Object_keys row)
           in Inr (no_content\<lparr>data := Some jsonData,
                                content_text := Some (formatDataAsText headers jsonData)\<rparr>)))"

section \<open>PDF extraction\<close>

text \<open>A natural number in a template literal: its decimal digits.\<close>

fun show_nat :: "nat \<Rightarrow> jsstring" where
  "show_nat n =
     (if n < 10 then [0x30 + of_nat n]
      else show_nat (n div 10) @ [0x30 + of_nat (n mod 10)])"

declare show_nat.simps [simp del]

text \<open>\<open>xs.join(sep)\<close>\<close>

fun join :: "jsstring \<Rightarrow> jsstring list \<Rightarrow> jsstring" where
  "join sep [] = []"
| "join sep [x] = x"
| "join sep (x # y # ys) = x @ sep @ join sep (y # ys)"

text \<open>\<open>.replace(/\s+/g, ' ')\<close>: every maximal run of white space becomes one space.\<close>

function collapse_spaces :: "jsstring \<Rightarrow> jsstring" where
  "collapse_spaces [] = []"
| "collapse_spaces (c # cs) =
     (if is_space c then 0x20 # collapse_spaces (dropWhile is_space cs)
      else c # collapse_spaces cs)"
  by pat_completeness auto
termination
  by (relation "measure length") (auto simp: length_dropWhile_le less_Suc_eq_le)

text \<open>
  What PDF.js gives for the file: a page resolves to its text items (the \<open>str\<close> of
  each) and, once rendered to the canvas, to the data URL of the canvas; each of the
  calls may reject.  \<open>window.pdfjsLib\<close> is \<open>None\<close> when the library is not loaded, and
  otherwise holds the outcome of \<open>getDocument\<close> for the bytes of the file.
\<close>

record PDFPage =
  getTextContent :: "error + jsstring list"
  render_toDataURL :: "error + jsstring"

record PDFDocument =
  numPages :: nat
  getPage :: "nat \<Rightarrow> error + PDFPage"

definition page_text_of :: "jsstring list \<Rightarrow> jsstring" where
  "page_text_of items = trim (collapse_spaces (join (js '' '') items))"

text \<open>The body of the loop over the pages, for page \<open>i\<close>: the entry that is pushed.\<close>

definition extract_page :: "PDFDocument \<Rightarrow> nat \<Rightarrow> error + PageContent" where
  "extract_page pdf i =
     (case getPage pdf i of
        Inl err \<Rightarrow> Inl err
      | Inr page \<Rightarrow>
          (case getTextContent page of
             Inl err \<Rightarrow> Inl err
           | Inr items \<Rightarrow>
               (case render_toDataURL page of
                  Inl err \<Rightarrow> Inl err
                | Inr url \<Rightarrow>
                    Inr \<lparr>pageNumber = i,
                         page_text = page_text_of items,
                         page_imageBase64 = at_index (split_on 0x2C url) 1\<rparr>)))"

text \<open>The loop \<open>for (let i = 1; i <= maxPages; i++)\<close> with the array \<open>pages\<close>.\<close>

function pdf_loop :: "PDFDocument \<Rightarrow> nat \<Rightarrow> nat \<Rightarrow> PageContent list \<Rightarrow> error + PageContent list" where
  "pdf_loop pdf maxPages i acc =
     (if i \<le> maxPages then
        (case extract_page pdf i of
           Inl err \<Rightarrow> Inl err
         | Inr p \<Rightarrow> pdf_loop pdf maxPages (Suc i) (acc @ [p]))
      else Inr acc)"
  by pat_completeness auto
termination
  by (relation "measure (\<lambda>(pdf, maxPages, i, acc). Suc maxPages - i)") auto

declare pdf_loop.simps [simp del]

definition page_marker :: "PageContent \<Rightarrow> jsstring" where
  "page_marker p = js ''[Page '' @ show_nat (pageNumber p) @ js '']''"

definition fullText :: "PageContent list \<Rightarrow> jsstring" where
  "fullText ps = join [0x0A, 0x0A] (map (\<lambda>p. page_marker p @ [0x0A] @ page_text p) ps)"

definition processPdf :: "(error + PDFDocument) option \<Rightarrow> error + ExtractedContent" where
  "processPdf pdfjsLib =
     (case pdfjsLib of
        None \<Rightarrow> Inl (Error (js ''PDF.js library not loaded''))
      | Some (Inl err) \<Rightarrow> Inl err
      | Some (Inr pdf) \<Rightarrow>
          (let maxPages = min (numPages pdf) 20
           in case pdf_loop pdf maxPages 1 [] of
                Inl err \<Rightarrow> Inl err
              | Inr ps \<Rightarrow> Inr (no_content\<lparr>pages := Some ps, content_text := Some (fullText ps)\<rparr>)))"

section \<open>Video extraction\<close>


text \<open>
  The body of the loop over the frames, at index \<open>i\<close>: the frame that is pushed.  The
  counter \<open>i\<close> is a Number that holds a natural number.
\<close>

definition frame_at :: "(double \<Rightarrow> jsstring) \<Rightarrow> double \<Rightarrow> double \<Rightarrow> nat \<Rightarrow> VideoFrame" where
  "frame_at capture duration frameCount i =
     (let ts = dtimes (ddivide duration (dplus frameCount (Finite 1)))
                 (dplus (Finite (of_nat i)) (Finite 1))
      in \<lparr>timestamp = ts, frame_imageBase64 = at_index (split_on 0x2C (capture ts)) 1\<rparr>)"

text \<open>
  The loop \<open>for (let i = 0; i < frameCount; i++)\<close> with the array \<open>frames\<close>.  For an
  infinite \<open>frameCount\<close> it would not end: \<open>None\<close> is the loop that does not return.
\<close>

partial_function (option) video_loop ::
  "(double \<Rightarrow> jsstring) \<Rightarrow> double \<Rightarrow> double \<Rightarrow> nat \<Rightarrow> VideoFrame list \<Rightarrow> VideoFrame list option"
where
  "video_loop capture duration frameCount i acc =
     (if dless (Finite (of_nat i)) frameCount
      then video_loop capture duration frameCount (Suc i)
             (acc @ [frame_at capture duration frameCount i])
      else Some acc)"

declare video_loop.simps [code]


section \<open>Output registry (services/output-registry.ts)\<close>

text \<open>
  The registry in its order of declaration.  The \<open>promptFragment\<close> of an entry is a
  long text that no function here inspects; it is left out of the record.
\<close>

record OutputConfig =
  config_id :: OutputType
  config_name :: jsstring
  description :: jsstring
  icon :: jsstring
  applicableInputs :: "SupportedFileType list"

definition OUTPUT_REGISTRY :: "(OutputType \<times> OutputConfig) list" where
  \<open>OUTPUT_REGISTRY =
     [(FieldSimulator,
       \<lparr>config_id = FieldSimulator, config_name = js ''Field Simulator'',
        description = js ''Voice-enabled door-to-door roleplay training with real-time feedback'',
        icon = js ''microphone'',
        applicableInputs = [Text, Markdown, Pdf]\<rparr>),
      (DamageDetective,
       \<lparr>config_id = DamageDetective, config_name = js ''Damage Detective'',
        description = js ''Interactive damage identification with clickable hotspots'',
        icon = js ''magnifying-glass'',
        applicableInputs = [Image, Pdf]\<rparr>),
      (CommissionTycoon,
       \<lparr>config_id = CommissionTycoon, config_name = js ''Commission Tycoon'',
        description = js ''Quiz-based commission calculation and knowledge game'',
        icon = js ''currency-dollar'',
        applicableInputs = [Text, Markdown, Csv, Excel, Pdf]\<rparr>),
      (ObjectionArena,
       \<lparr>config_id = ObjectionArena, config_name = js ''Objection Battle Arena'',
        description = js ''Practice handling customer objections with scoring and timer'',
        icon = js ''shield'',
        applicableInputs = [Text, Markdown, Pdf]\<rparr>),
      (InspectionWalkthrough,
       \<lparr>config_id = InspectionWalkthrough, config_name = js ''Inspection Walkthrough'',
        description = js ''Step-by-step guided inspection checklist simulator'',
        icon = js ''clipboard-check'',
        applicableInputs = [Image, Pdf, Text, Markdown]\<rparr>),
      (FlashcardDrill,
       \<lparr>config_id = FlashcardDrill, config_name = js ''Flashcard Drill'',
        description = js ''Q&A flashcards with spaced repetition for memorization'',
        icon = js ''academic-cap'',
        applicableInputs = [Text, Markdown, Csv, Excel, Pdf]\<rparr>),
      (InteractiveTimeline,
       \<lparr>config_id = InteractiveTimeline, config_name = js ''Interactive Timeline'',
        description = js ''Clickable process and sequence explorer'',
        icon = js ''arrow-path'',
        applicableInputs = [Text, Markdown, Pdf, Csv]\<rparr>),
      (ScenarioBuilder,
       \<lparr>config_id = ScenarioBuilder, config_name = js ''Scenario Builder'',
        description = js ''Create branching "choose your path" scenarios with multiple outcomes'',
        icon = js ''puzzle-piece'',
        applicableInputs = [Text, Markdown, Pdf, Csv]\<rparr>),
      (PitchPerfector,
       \<lparr>config_id = PitchPerfector, config_name = js ''Pitch Perfector'',
        description = js ''Practice and score your sales pitch with real-time feedback'',
        icon = js ''presentation-chart'',
        applicableInputs = [Text, Markdown, Pdf]\<rparr>),
      (Auto,
       \<lparr>config_id = Auto, config_name = js ''Auto-Select (AI Recommended)'',
        description = js ''Let AI analyze your content and choose the best training type'',
        icon = js ''sparkles'',
        applicableInputs = [Image, Pdf, Csv, Excel, Text, Markdown, Video]\<rparr>)]\<close>

text \<open>\<open>Object.values\<close> of the registry: no key is an array index, so the order is that of declaration.\<close>

definition Object_values :: "('k \<times> 'v) list \<Rightarrow> 'v list" where
  "Object_values r = map snd r"

definition getApplicableOutputs :: "SupportedFileType \<Rightarrow> OutputConfig list" where
  "getApplicableOutputs fileType =
     filter (\<lambda>config. config_id config \<noteq> Auto \<and> fileType \<in> set (applicableInputs config))
       (Object_values OUTPUT_REGISTRY)"

section \<open>Reading results\<close>

text \<open>The content of a successful extraction; a failed one has none.\<close>

definition extracted :: "error + ExtractedContent \<Rightarrow> ExtractedContent" where
  "extracted r = (case r of Inl err \<Rightarrow> no_content | Inr content \<Rightarrow> content)"


section \<open>Sample inputs\<close>

definition sample_file :: File where
  "sample_file =
     \<lparr>file_name = js ''walk.mp4'', file_type = js ''video/mp4'', file_size = 1000,
      file_text = []\<rparr>"

definition sample_parsed :: ParsedFile where
  "sample_parsed =
     \<lparr>originalFile = sample_file, parsed_type = Video, mimeType = js ''video/mp4'',
      extractedContent = no_content,
      metadata = \<lparr>fileName = js ''walk.mp4'', fileSize = 1000, pageCount = None,
                  rowCount = None, columnCount = None\<rparr>\<rparr>"

definition csv_named_png :: File where
  "csv_named_png = \<lparr>file_name = js ''report.csv'', file_type = js ''image/png'', file_size = 10, file_text = []\<rparr>"

definition untyped_markdown :: File where
  "untyped_markdown = \<lparr>file_name = js ''Notes.MD'', file_type = [], file_size = 10, file_text = []\<rparr>"

definition zip_file :: File where
  "zip_file = \<lparr>file_name = js ''a.zip'', file_type = js ''application/zip'', file_size = 10, file_text = []\<rparr>"

text \<open>
  A stand-in for the parameter \<open>formatDataAsText\<close> in concrete runs, none of which looks
  at the text, and a CSV file with a given text.
\<close>

definition sample_format :: "jsstring list \<Rightarrow> DataRow list \<Rightarrow> jsstring" where
  "sample_format headers rows = []"

definition csv_file :: "jsstring \<Rightarrow> File" where
  "csv_file t = \<lparr>file_name = js ''data.csv'', file_type = js ''text/csv'', file_size = length t, file_text = t\<rparr>"

definition sales_csv :: File where
  "sales_csv = csv_file (js ''name,signups,revenue'' @ [0x0A] @ js ''Al,3,10.5'' @ [0x0A] @ js ''Bo,7,n/a'')"

definition header_only_csv :: File where
  "header_only_csv = csv_file (js ''name,signups'')"

definition prefix_csv :: File where
  "prefix_csv = csv_file (js ''item,price'' @ [0x0A] @ js ''5 apples,'' @ [0x22] @ js ''1,234'' @ [0x22])"

definition proto_csv :: File where
  "proto_csv = csv_file (js ''__proto__,qty'' @ [0x0A] @ js ''1,2'')"

text \<open>A document of 21 pages, and a capture that gives the same picture at every time.\<close>

definition pdf21 :: PDFDocument where
  "pdf21 = \<lparr>numPages = 21,
            getPage = (\<lambda>i. Inr \<lparr>getTextContent = Inr [js ''Roof  '', js ''page''],
                                 render_toDataURL = Inr (js ''data:image/png;base64,iVBOR'')\<rparr>)\<rparr>"



section \<open>Facts about trimming\<close>

lemma backquote_not_space: "\<not> is_space 0x60"
  by (simp add: is_space_def)

lemma fence_unfold: "fence = [0x60, 0x60, 0x60]"
  by (simp add: fence_def js_def)

lemma length_fence: "length fence = 3"
  by (simp add: fence_def js_def)

lemma trimStart_id: "s = [] \<or> \<not> is_space (hd s) \<Longrightarrow> trimStart s = s"
  by (cases s) (simp_all add: trimStart_def)

lemma trimEnd_id: "s = [] \<or> \<not> is_space (last s) \<Longrightarrow> trimEnd s = s"
  by (cases s rule: rev_cases) (simp_all add: trimEnd_def)

lemma trimStart_hd: "trimStart s = [] \<or> \<not> is_space (hd (trimStart s))"
  unfolding trimStart_def using hd_dropWhile [of is_space s] by blast

lemma trimEnd_last: "trimEnd s = [] \<or> \<not> is_space (last (trimEnd s))"
proof (cases "dropWhile is_space (rev s) = []")
  case True
  then show ?thesis by (simp add: trimEnd_def)
next
  case False
  from hd_dropWhile [OF False] have "\<not> is_space (hd (dropWhile is_space (rev s)))" .
  moreover have "last (trimEnd s) = hd (dropWhile is_space (rev s))"
    using False by (simp add: trimEnd_def last_rev)
  ultimately show ?thesis by simp
qed

text \<open>\<open>trimEnd\<close> cuts a suffix of white space off.\<close>

lemma trimEnd_prefix: "s = trimEnd s @ rev (takeWhile is_space (rev s))"
proof -
  have "trimEnd s @ rev (takeWhile is_space (rev s)) =
        rev (takeWhile is_space (rev s) @ dropWhile is_space (rev s))"
    by (simp only: trimEnd_def rev_append)
  also have "\<dots> = s" by simp
  finally show ?thesis by simp
qed

lemma trimEnd_hd: "trimEnd s \<noteq> [] \<Longrightarrow> hd (trimEnd s) = hd s"
  using trimEnd_prefix [of s] by (metis hd_append2)

lemma trimEnd_Cons: "trimEnd cs \<noteq> [] \<Longrightarrow> trimEnd (c # cs) = c # trimEnd cs"
proof -
  assume "trimEnd cs \<noteq> []"
  then have "dropWhile is_space (rev cs) \<noteq> []" by (simp add: trimEnd_def)
  then obtain x where "x \<in> set (rev cs)" "\<not> is_space x"
    by (auto simp: dropWhile_eq_Nil_conv)
  then have "dropWhile is_space (rev cs @ [c]) = dropWhile is_space (rev cs) @ [c]"
    by (rule dropWhile_append1)
  then show ?thesis by (simp add: trimEnd_def)
qed

lemma trimmed_trim: "trimmed (trim s)"
proof (cases "trim s = []")
  case True
  then show ?thesis by (simp add: trimmed_def)
next
  case False
  then have ne: "trimEnd (trimStart s) \<noteq> []" by (simp add: trim_def)
  then have "trimStart s \<noteq> []" by (auto simp: trimEnd_def)
  with trimStart_hd [of s] have "\<not> is_space (hd (trimStart s))" by simp
  with trimEnd_hd [OF ne] have "\<not> is_space (hd (trim s))" by (simp add: trim_def)
  moreover from trimEnd_last [of "trimStart s"] ne have "\<not> is_space (last (trim s))"
    by (simp add: trim_def)
  ultimately show ?thesis by (simp add: trimmed_def)
qed

lemma trim_id: "trimmed s \<Longrightarrow> trim s = s"
  by (auto simp: trimmed_def trim_def trimStart_id trimEnd_id)

lemma trim_idem: "trim (trim s) = trim s"
  by (rule trim_id) (rule trimmed_trim)

section \<open>Response cleaning: what one pass removes\<close>

lemma canonicalize_backquote: "canonicalize c = 0x60 \<Longrightarrow> c = 0x60"
  by (simp add: canonicalize_def split: if_splits)

lemma canonicalize_96: "canonicalize 0x60 = 0x60"
  by (simp add: canonicalize_def)

lemma startsWith_ci_html_fence:
  assumes "startsWith_ci s (js ''```html'')"
  shows "startsWith s fence"
proof -
  from assms obtain a b c r where s: "s = a # b # c # r"
    by (cases s; cases "tl s"; cases "tl (tl s)") (auto simp: startsWith_ci_def js_def)
  with assms have "canonicalize a = 0x60" "canonicalize b = 0x60" "canonicalize c = 0x60"
    by (simp_all add: startsWith_ci_def js_def canonicalize_96)
  then have "a = 0x60" "b = 0x60" "c = 0x60"
    by (simp_all add: canonicalize_backquote)
  with s show ?thesis by (simp add: startsWith_def fence_unfold)
qed

lemma fence_to_end_trailing:
  assumes "fence_to_end s"
  shows "trailing_fence s"
proof -
  from assms have t: "take 3 s = fence" and w: "list_all is_space (drop 3 s)"
    by (simp_all add: fence_to_end_def startsWith_def length_fence)
  have "s = fence @ drop 3 s" using t append_take_drop_id [of 3 s] by simp
  then have "rev s = rev (drop 3 s) @ rev fence" by (metis rev_append)
  moreover have "dropWhile is_space (rev (drop 3 s) @ rev fence) = dropWhile is_space (rev fence)"
    using w by (intro dropWhile_append2) (simp add: list_all_iff)
  ultimately have "dropWhile is_space (rev s) = dropWhile is_space (rev fence)"
    by simp
  then have "trimEnd s = fence"
    by (simp add: trimEnd_def fence_unfold backquote_not_space)
  then show ?thesis by (simp add: trailing_fence_def endsWith_def length_fence)
qed

lemma trailing_fence_Cons:
  assumes "trailing_fence cs"
  shows "trailing_fence (c # cs)"
proof -
  from assms have len: "3 \<le> length (trimEnd cs)"
    and d: "drop (length (trimEnd cs) - 3) (trimEnd cs) = fence"
    by (simp_all add: trailing_fence_def endsWith_def length_fence)
  from len have "trimEnd cs \<noteq> []" by auto
  then have e: "trimEnd (c # cs) = c # trimEnd cs" by (rule trimEnd_Cons)
  from len have "Suc (length (trimEnd cs)) - 3 = Suc (length (trimEnd cs) - 3)" by simp
  with d len show ?thesis
    by (simp add: trailing_fence_def endsWith_def e length_fence)
qed

lemma replace_trailing_fence_id: "\<not> trailing_fence s \<Longrightarrow> replace_trailing_fence s = s"
proof (induction s)
  case Nil
  then show ?case by simp
next
  case (Cons c cs)
  from Cons.prems have "\<not> fence_to_end (c # cs)" using fence_to_end_trailing by blast
  moreover from Cons.prems have "\<not> trailing_fence cs" using trailing_fence_Cons by blast
  ultimately show ?case using Cons.IH by simp
qed

lemma cleanResponse_no_fence:
  assumes "\<not> leading_fence s" "\<not> trailing_fence s"
  shows "cleanResponse s = trim s"
proof -
  from assms(1) have "\<not> startsWith s fence" by (simp add: leading_fence_def)
  then have "replace_leading_html_fence s = s" "replace_leading_fence s = s"
    using startsWith_ci_html_fence
    by (auto simp: replace_leading_html_fence_def replace_leading_fence_def)
  with assms(2) show ?thesis by (simp add: cleanResponse_def replace_trailing_fence_id)
qed

lemma cleanResponse_trimmed: "trimmed (cleanResponse s)"
  by (simp add: cleanResponse_def trimmed_trim)

text \<open>
  Claim C1, as the spec states it, fails: with two fences in front, one pass of
  \<open>cleanResponse\<close> removes one of them and a second pass removes the other, so the
  function is not idempotent; and a string without any fence but with white space
  around it is trimmed, hence changed.
\<close>

theorem cleanResponse_not_idempotent:
  "cleanResponse (cleanResponse (js ''``````<p>'')) \<noteq> cleanResponse (js ''``````<p>'') \<and>
   \<not> leading_fence (js '' <p>'') \<and> \<not> trailing_fence (js '' <p>'') \<and>
   cleanResponse (js '' <p>'') \<noteq> js '' <p>''"
  by code_simp

text \<open>
  Claim C1, amended: whenever the cleaned string carries no leading and no trailing fence
  any more, cleaning it again changes nothing; and a string \<open>y\<close> that neither starts with
  three backquotes nor, white space at its end apart, ends with three backquotes is
  returned trimmed, so unchanged when it has no white space around it.
\<close>

theorem cleanResponse_fence_free:
  "(\<not> leading_fence (cleanResponse x) \<and> \<not> trailing_fence (cleanResponse x)
      \<longrightarrow> cleanResponse (cleanResponse x) = cleanResponse x) \<and>
   (\<not> leading_fence y \<and> \<not> trailing_fence y
      \<longrightarrow> cleanResponse y = trim y \<and> (trimmed y \<longrightarrow> cleanResponse y = y))"
  using cleanResponse_no_fence cleanResponse_trimmed trim_id by auto

theorem cleanResponse_fence_free_witness:
  "\<not> leading_fence (cleanResponse (js ''```HTML  <p>hi</p>``` '')) \<and>
   \<not> trailing_fence (cleanResponse (js ''```HTML  <p>hi</p>``` '')) \<and>
   cleanResponse (cleanResponse (js ''```HTML  <p>hi</p>``` '')) =
     cleanResponse (js ''```HTML  <p>hi</p>``` '') \<and>
   \<not> leading_fence (js ''<p>``x``</p>'') \<and> \<not> trailing_fence (js ''<p>``x``</p>'') \<and>
   trimmed (js ''<p>``x``</p>'') \<and>
   cleanResponse (js ''<p>``x``</p>'') = js ''<p>``x``</p>''"
proof -
  have a: "cleanResponse (js ''```HTML  <p>hi</p>``` '') = js ''<p>hi</p>''"
    by code_simp
  have b: "\<not> leading_fence (cleanResponse (js ''```HTML  <p>hi</p>``` '')) \<and>
           \<not> trailing_fence (cleanResponse (js ''```HTML  <p>hi</p>``` ''))"
    unfolding a by code_simp
  have c: "\<not> leading_fence (js ''<p>``x``</p>'') \<and> \<not> trailing_fence (js ''<p>``x``</p>'') \<and>
           trimmed (js ''<p>``x``</p>'')"
    by code_simp
  from cleanResponse_fence_free [of "js ''```HTML  <p>hi</p>``` ''" "js ''<p>``x``</p>''"] b c
  show ?thesis by blast
qed

section \<open>Auto-selection\<close>

lemma OutputType_str_auto: "t \<in> set validTypes \<Longrightarrow> OutputType_str t \<noteq> js ''auto''"
  by (auto simp: validTypes_def js_def)

lemma getDefaultOutputType_valid: "getDefaultOutputType ty \<in> set validTypes"
  by (cases ty) (simp_all add: validTypes_def)

lemma validTypes_not_Auto: "t \<in> set validTypes \<Longrightarrow> t \<noteq> Auto"
  by (auto simp: validTypes_def)

text \<open>
  Claim C2: whatever the file and whatever the outcome of the model call,
  \<open>autoSelectOutputType\<close> returns normally, and what it returns is the identifier of one
  of the nine concrete output types, never \<open>auto\<close>.  When the call fails, or when its
  text, trimmed, lower-cased and without quotes, is not one of the nine identifiers, the
  result is the default for the type of the file; the default is defined for each of
  the seven file types and is one of the nine.
\<close>

theorem autoSelectOutputType_concrete:
  "(\<exists>t. autoSelectOutputType toLowerCase pf call = Inr (OutputType_str t) \<and>
        t \<in> set validTypes \<and> t \<noteq> Auto \<and> OutputType_str t \<noteq> js ''auto'') \<and>
   (\<forall>err. call = Inl err \<longrightarrow>
      autoSelectOutputType toLowerCase pf call =
        Inr (OutputType_str (getDefaultOutputType (parsed_type pf)))) \<and>
   (\<forall>r. call = Inr r \<and>
        strip_quotes (toLowerCase (trim (or_else (response_text r) [])))
          \<notin> set (map OutputType_str validTypes) \<longrightarrow>
      autoSelectOutputType toLowerCase pf call =
        Inr (OutputType_str (getDefaultOutputType (parsed_type pf)))) \<and>
   getDefaultOutputType ty \<in> set validTypes \<and>
   (UNIV :: SupportedFileType set) = {Image, Pdf, Csv, Excel, Text, Markdown, Video} \<and>
   length validTypes = 9 \<and> distinct (map OutputType_str validTypes)"
proof -
  let ?d = "getDefaultOutputType (parsed_type pf)"
  have d: "?d \<in> set validTypes" by (rule getDefaultOutputType_valid)
  have 1: "\<exists>t. autoSelectOutputType toLowerCase pf call = Inr (OutputType_str t) \<and>
        t \<in> set validTypes \<and> t \<noteq> Auto \<and> OutputType_str t \<noteq> js ''auto''"
  proof (cases call)
    case (Inl e)
    then have "autoSelectOutputType toLowerCase pf call = Inr (OutputType_str ?d)"
      by (simp add: autoSelectOutputType_def)
    with d show ?thesis using validTypes_not_Auto OutputType_str_auto by blast
  next
    case (Inr r)
    let ?res = "strip_quotes (toLowerCase (trim (or_else (response_text r) [])))"
    show ?thesis
    proof (cases "?res \<in> set (map OutputType_str validTypes)")
      case True
      then obtain t where t: "t \<in> set validTypes" "?res = OutputType_str t" by auto
      from Inr True have "autoSelectOutputType toLowerCase pf call = Inr ?res"
        by (simp add: autoSelectOutputType_def Let_def)
      with t show ?thesis using validTypes_not_Auto OutputType_str_auto by metis
    next
      case False
      with Inr have "autoSelectOutputType toLowerCase pf call = Inr (OutputType_str ?d)"
        by (simp add: autoSelectOutputType_def Let_def)
      with d show ?thesis using validTypes_not_Auto OutputType_str_auto by blast
    qed
  qed
  have 2: "\<forall>err. call = Inl err \<longrightarrow>
      autoSelectOutputType toLowerCase pf call = Inr (OutputType_str ?d)"
    by (simp add: autoSelectOutputType_def)
  have 3: "\<forall>r. call = Inr r \<and>
        strip_quotes (toLowerCase (trim (or_else (response_text r) [])))
          \<notin> set (map OutputType_str validTypes) \<longrightarrow>
      autoSelectOutputType toLowerCase pf call = Inr (OutputType_str ?d)"
    by (simp add: autoSelectOutputType_def Let_def)
  have 4: "(UNIV :: SupportedFileType set) = {Image, Pdf, Csv, Excel, Text, Markdown, Video}"
    using SupportedFileType.exhaust by auto
  have 5: "length validTypes = 9" by (simp add: validTypes_def)
  have 6: "distinct (map OutputType_str validTypes)" by code_simp
  from 1 2 3 4 5 6 getDefaultOutputType_valid show ?thesis by blast
qed

theorem autoSelectOutputType_concrete_witness:
  "autoSelectOutputType ascii_lower sample_parsed (Inl (Error (js ''503''))) =
     Inr (js ''inspection-walkthrough'') \<and>
   strip_quotes (ascii_lower (trim (or_else (Some (js ''the pitch-perfector'')) [])))
     \<notin> set (map OutputType_str validTypes) \<and>
   autoSelectOutputType ascii_lower sample_parsed
     (Inr \<lparr>response_text = Some (js ''the pitch-perfector'')\<rparr>) =
     Inr (js ''inspection-walkthrough'')"
proof -
  have a: "strip_quotes (ascii_lower (trim (or_else (Some (js ''the pitch-perfector'')) [])))
          \<notin> set (map OutputType_str validTypes)"
    by code_simp
  have b: "OutputType_str (getDefaultOutputType (parsed_type sample_parsed)) =
           js ''inspection-walkthrough''"
    by (simp add: sample_parsed_def)
  from autoSelectOutputType_concrete [of ascii_lower sample_parsed "Inl (Error (js ''503''))"]
       autoSelectOutputType_concrete [of ascii_lower sample_parsed
         "Inr \<lparr>response_text = Some (js ''the pitch-perfector'')\<rparr>"]
       a b
  show ?thesis by simp
qed

section \<open>A response without text\<close>

lemma clean_placeholder: "cleanResponse failed_placeholder = failed_placeholder"
  by code_simp

text \<open>
  Claim C3, as the spec states it, fails for refinement: when the response has no text,
  \<open>refineApp\<close> falls back to the markup it was given, not to the placeholder comment.
\<close>

theorem refineApp_missing_text_counterexample:
  "refineApp (js ''<p>v1</p>'') (Inr \<lparr>response_text = None\<rparr>) = Inr (js ''<p>v1</p>'') \<and>
   refineApp (js ''<p>v1</p>'') (Inr \<lparr>response_text = None\<rparr>) \<noteq>
     Inr (cleanResponse failed_placeholder)"
  by code_simp

text \<open>
  Claim C3, amended: when the response of the model has no text, or an empty one, both
  operations succeed; generation returns the placeholder comment, which cleaning leaves
  as it is, and refinement returns the cleaned current markup.
\<close>

theorem missing_text_fallback:
  "response_text r = None \<or> response_text r = Some [] \<Longrightarrow>
     generateTraining (Inr r) = Inr failed_placeholder \<and>
     refineApp currentHtml (Inr r) = Inr (cleanResponse currentHtml)"
  by (auto simp: generateTraining_def refineApp_def or_else_def clean_placeholder)

theorem missing_text_fallback_witness:
  "response_text \<lparr>response_text = None\<rparr> = None \<and>
   generateTraining (Inr \<lparr>response_text = None\<rparr>) =
     Inr (js ''<!-- Failed to generate content -->'') \<and>
   refineApp (js ''```html <p>v1</p>```'') (Inr \<lparr>response_text = None\<rparr>) =
     Inr (js ''<p>v1</p>'')"
proof -
  have a: "cleanResponse (js ''```html <p>v1</p>```'') = js ''<p>v1</p>''"
    by code_simp
  from missing_text_fallback [of "\<lparr>response_text = None\<rparr>" "js ''```html <p>v1</p>```''"] a
  show ?thesis by (simp add: failed_placeholder_def)
qed

section \<open>File classification\<close>

lemma endsWith_two:
  assumes "endsWith n p" "endsWith n q" "length q \<le> length p"
  shows "endsWith p q"
proof -
  from assms(1) have p: "length p \<le> length n" "drop (length n - length p) n = p"
    by (simp_all add: endsWith_def)
  from assms(2) have q: "length q \<le> length n" "drop (length n - length q) n = q"
    by (simp_all add: endsWith_def)
  have "drop (length p - length q) p = drop (length p - length q) (drop (length n - length p) n)"
    using p by simp
  also have "\<dots> = drop (length n - length q) n"
    using p(1) assms(3) by simp
  finally show ?thesis using q assms(3) by (simp add: endsWith_def)
qed

lemma endsWith_excl:
  assumes "endsWith n p" "\<not> endsWith p q" "\<not> endsWith q p"
  shows "\<not> endsWith n q"
  using assms endsWith_two [of n p q] endsWith_two [of n q p] by (meson nat_le_linear)

lemma table_excl:
  "list_all (\<lambda>p. list_all (\<lambda>q. p = q \<or> (\<not> endsWith (js p) (js q))) (map fst extension_table)) (map fst extension_table)"
  by code_simp






lemma if_disj: "(if a \<or> b then x else y) = (if a then x else if b then x else y)"
  by simp

lemma case_if_Some:
  "(case (if c then Some p else q) of None \<Rightarrow> n | Some (e, t) \<Rightarrow> s e t) =
   (if c then s (fst p) (snd p) else (case q of None \<Rightarrow> n | Some (e, t) \<Rightarrow> s e t))"
  by (simp split: prod.splits)

lemma detect_unknown_media:
  assumes "\<not> known_media_type (lc (file_type f))"
  shows "detectFileType lc f =
     (case find (\<lambda>(e, t). endsWith (lc (file_name f)) (js e)) extension_table of
        Some (e, t) \<Rightarrow> Inr t
      | None \<Rightarrow> Inl (Error (js ''Unsupported file type: '' @
                   (if lc (file_type f) = [] then lc (file_name f) else lc (file_type f)))))"
proof -
  from assms have nk: "\<not> startsWith (lc (file_type f)) (js ''image/'')" 
    "lc (file_type f) \<noteq> js ''application/pdf''" "lc (file_type f) \<noteq> js ''text/csv''"
    "\<not> includes_str (lc (file_type f)) (js ''spreadsheet'')"
    "\<not> includes_str (lc (file_type f)) (js ''excel'')"
    "\<not> startsWith (lc (file_type f)) (js ''video/'')" "lc (file_type f) \<noteq> js ''text/markdown''"
    "\<not> startsWith (lc (file_type f)) (js ''text/'')"
    by (simp_all add: known_media_type_def)
  show ?thesis
    unfolding detectFileType_def Let_def
    by (simp only: nk if_False extension_table_def test_extension_def list_ex_Nil_iff list_ex_Cons_iff find.simps
          if_disj case_if_Some fst_conv snd_conv option.case prod.case simp_thms)
qed





lemma table_excl': 
  "\<forall>p\<in>set (map fst extension_table). \<forall>q\<in>set (map fst extension_table). p = q \<or> \<not> endsWith (js p) (js q)"
  using table_excl by (simp only: list_all_iff)

lemma ext_unique:
  assumes "(e, t) \<in> set extension_table" "endsWith name (js e)"
    and "(e', t') \<in> set extension_table" "e' \<noteq> e"
  shows "\<not> endsWith name (js e')"
proof -
  from assms(1) have m1: "e \<in> set (map fst extension_table)"
    by (metis fst_conv image_eqI set_map)
  from assms(3) have m2: "e' \<in> set (map fst extension_table)"
    by (metis fst_conv image_eqI set_map)
  from table_excl' [rule_format, OF m1 m2] assms(4) have 1: "\<not> endsWith (js e) (js e')" by simp
  from table_excl' [rule_format, OF m2 m1] assms(4) have 2: "\<not> endsWith (js e') (js e)" by simp
  from assms(2) 1 2 show ?thesis by (rule endsWith_excl)
qed

lemma extension_table_distinct: "distinct (map fst extension_table)"
  by (simp add: extension_table_def)


lemma find_extension:
  assumes mem: "(e, t) \<in> set extension_table" and ew: "endsWith name (js e)"
  shows "find (\<lambda>(e, t). endsWith name (js e)) extension_table = Some (e, t)"
proof (cases "find (\<lambda>(e, t). endsWith name (js e)) extension_table")
  case None
  then have "\<not> endsWith name (js e)"
    using mem by (auto simp: find_None_iff)
  with ew show ?thesis by simp
next
  case (Some p)
  obtain e' t' where p: "p = (e', t')" by (cases p)
  from Some have "p \<in> set extension_table \<and> (case p of (e, t) \<Rightarrow> endsWith name (js e))"
    by (metis find_Some_iff nth_mem)
  with p have in_t: "(e', t') \<in> set extension_table" and ew': "endsWith name (js e')"
    by simp_all
  from ext_unique [OF mem ew in_t] ew' have e: "e' = e" by blast
  have "t' = t"
    by (rule eq_key_imp_eq_value [OF extension_table_distinct in_t [unfolded e] mem])
  with Some p e show ?thesis by simp
qed


lemma detect_by_extension:
  assumes nk: "\<not> known_media_type (lc (file_type f))"
    and mem: "(e, t) \<in> set extension_table"
    and ew: "endsWith (lc (file_name f)) (js e)"
  shows "detectFileType lc f = Inr t"
  using nk by (simp add: detect_unknown_media [of lc f] find_extension [OF mem ew])

lemma detect_unsupported:
  assumes nk: "\<not> known_media_type (lc (file_type f))"
    and ne: "\<not> known_extension (lc (file_name f))"
  shows "detectFileType lc f = Inl (Error (js ''Unsupported file type: '' @
                   (if lc (file_type f) = [] then lc (file_name f) else lc (file_type f))))"
proof -
  from ne have "find (\<lambda>(e, t). endsWith (lc (file_name f)) (js e)) extension_table = None"
    by (auto simp: known_extension_def find_None_iff list_ex_iff)
  with nk show ?thesis by (simp add: detect_unknown_media [of lc f])
qed

lemma detect_known_media:
  assumes "known_media_type (lc (file_type f))"
  shows "detectFileType lc f =
      Inr (if startsWith (lc (file_type f)) (js ''image/'') then Image
         else if lc (file_type f) = js ''application/pdf'' then Pdf
         else if lc (file_type f) = js ''text/csv'' then Csv
         else if includes_str (lc (file_type f)) (js ''spreadsheet'') \<or> includes_str (lc (file_type f)) (js ''excel'')
           then Excel
         else if startsWith (lc (file_type f)) (js ''video/'') then Video
         else if lc (file_type f) = js ''text/markdown'' then Markdown
         else Text)"
proof -
  define mime where "mime = lc (file_type f)"
  show ?thesis
    using assms unfolding detectFileType_def known_media_type_def Let_def mime_def [symmetric]
    by (cases "startsWith mime (js ''image/'')"; cases "mime = js ''application/pdf''";
        cases "mime = js ''text/csv''"; cases "includes_str mime (js ''spreadsheet'')";
        cases "includes_str mime (js ''excel'')"; cases "startsWith mime (js ''video/'')";
        cases "mime = js ''text/markdown''"; cases "startsWith mime (js ''text/'')")
       (simp_all only: if_True if_False simp_thms)
qed

lemma startsWith_two:
  assumes "startsWith s p" "startsWith s q" "length p \<le> length q"
  shows "startsWith q p"
proof -
  from assms(1,2) have "take (length p) s = p" "take (length q) s = q"
    by (simp_all add: startsWith_def)
  then have "take (length p) q = take (length p) (take (length q) s)" by simp
  also have "\<dots> = take (length p) s" using assms(3) by (simp add: min_def)
  finally show ?thesis using \<open>take (length p) s = p\<close> by (simp add: startsWith_def)
qed

lemma video_not_image: "startsWith s (js ''video/'') \<Longrightarrow> \<not> startsWith s (js ''image/'')"
proof
  assume "startsWith s (js ''video/'')" "startsWith s (js ''image/'')"
  then have "startsWith (js ''image/'') (js ''video/'')"
    by (rule startsWith_two) (simp add: js_def)
  then show False by (simp add: startsWith_def js_def)
qed

lemma text_not_image: "startsWith s (js ''text/'') \<Longrightarrow> \<not> startsWith s (js ''image/'')"
proof
  assume "startsWith s (js ''text/'')" "startsWith s (js ''image/'')"
  then have "startsWith (js ''image/'') (js ''text/'')"
    by (rule startsWith_two) (simp add: js_def)
  then show False by (simp add: startsWith_def js_def)
qed

lemma text_not_video: "startsWith s (js ''text/'') \<Longrightarrow> \<not> startsWith s (js ''video/'')"
proof
  assume "startsWith s (js ''text/'')" "startsWith s (js ''video/'')"
  then have "startsWith (js ''video/'') (js ''text/'')"
    by (rule startsWith_two) (simp add: js_def)
  then show False by (simp add: startsWith_def js_def)
qed

lemma fixed_media_types:
  "\<not> startsWith (js ''application/pdf'') (js ''image/'')"
  "\<not> startsWith (js ''text/csv'') (js ''image/'')"
  "js ''text/csv'' \<noteq> js ''application/pdf''"
  "\<not> startsWith (js ''text/markdown'') (js ''image/'')"
  "js ''text/markdown'' \<noteq> js ''application/pdf''"
  "js ''text/markdown'' \<noteq> js ''text/csv''"
  "\<not> includes_str (js ''text/markdown'') (js ''spreadsheet'')"
  "\<not> includes_str (js ''text/markdown'') (js ''excel'')"
  "\<not> startsWith (js ''text/markdown'') (js ''video/'')"
  "\<not> includes_str (js ''application/pdf'') (js ''spreadsheet'')"
  "\<not> includes_str (js ''application/pdf'') (js ''excel'')"
  "\<not> includes_str (js ''text/csv'') (js ''spreadsheet'')"
  "\<not> includes_str (js ''text/csv'') (js ''excel'')"
  "\<not> startsWith (js ''application/pdf'') (js ''video/'')"
  "\<not> startsWith (js ''text/csv'') (js ''video/'')"
  "\<not> startsWith (js ''application/pdf'') (js ''text/'')"
  by code_simp+


text \<open>
  Claim C7: with \<open>mime\<close> and \<open>name\<close> the lower-cased media type and file name, a
  media type in a known category decides the result whatever the name is (the media
  type wins over the extension), and the result is the type of the first category in
  the order image, pdf, csv, excel, video, markdown, text that the media type falls in;
  when the media type is in no category (absent and empty included), a name with a
  known extension gives the type the extension implies; when neither the media type nor
  the extension is known, the classification fails with the unsupported-file-type error.
\<close>

theorem detectFileType_classifies:
  "(let mime = lc (file_type f); name = lc (file_name f) in
     (known_media_type mime \<longrightarrow>
        (\<exists>t. \<forall>n. detectFileType lc (f\<lparr>file_name := n\<rparr>) = Inr t)) \<and>
     (startsWith mime (js ''image/'') \<longrightarrow> detectFileType lc f = Inr Image) \<and>
     (mime = js ''application/pdf'' \<longrightarrow> detectFileType lc f = Inr Pdf) \<and>
     (mime = js ''text/csv'' \<longrightarrow> detectFileType lc f = Inr Csv) \<and>
     ((includes_str mime (js ''spreadsheet'') \<or> includes_str mime (js ''excel'')) \<and>
      \<not> startsWith mime (js ''image/'') \<longrightarrow> detectFileType lc f = Inr Excel) \<and>
     (startsWith mime (js ''video/'') \<and>
      \<not> includes_str mime (js ''spreadsheet'') \<and> \<not> includes_str mime (js ''excel'')
        \<longrightarrow> detectFileType lc f = Inr Video) \<and>
     (mime = js ''text/markdown'' \<longrightarrow> detectFileType lc f = Inr Markdown) \<and>
     (startsWith mime (js ''text/'') \<and> mime \<noteq> js ''text/csv'' \<and> mime \<noteq> js ''text/markdown'' \<and>
      \<not> includes_str mime (js ''spreadsheet'') \<and> \<not> includes_str mime (js ''excel'')
        \<longrightarrow> detectFileType lc f = Inr Text) \<and>
     (\<not> known_media_type mime \<longrightarrow>
        (\<forall>(e, t) \<in> set extension_table.
           endsWith name (js e) \<longrightarrow> detectFileType lc f = Inr t)) \<and>
     (\<not> known_media_type mime \<and> \<not> known_extension name \<longrightarrow>
        detectFileType lc f =
          Inl (Error (js ''Unsupported file type: '' @ (if mime = [] then name else mime)))))"
proof -
  let ?mime = "lc (file_type f)"
  have A: "known_media_type ?mime \<longrightarrow> (\<exists>t. \<forall>n. detectFileType lc (f\<lparr>file_name := n\<rparr>) = Inr t)"
  proof
    assume k: "known_media_type ?mime"
    have "\<And>n. detectFileType lc (f\<lparr>file_name := n\<rparr>) = detectFileType lc f"
      using k by (simp add: detect_known_media [of lc f] detect_known_media [of lc "f\<lparr>file_name := n\<rparr>" for n])
    with k show "\<exists>t. \<forall>n. detectFileType lc (f\<lparr>file_name := n\<rparr>) = Inr t"
      by (simp add: detect_known_media [of lc f])
  qed
  have B1: "startsWith ?mime (js ''image/'') \<longrightarrow> detectFileType lc f = Inr Image"
    by (simp add: detect_known_media known_media_type_def)
  have B2: "?mime = js ''application/pdf'' \<longrightarrow> detectFileType lc f = Inr Pdf"
    by (simp add: detect_known_media known_media_type_def fixed_media_types)
  have B3: "?mime = js ''text/csv'' \<longrightarrow> detectFileType lc f = Inr Csv"
    by (simp add: detect_known_media known_media_type_def fixed_media_types)
  have B4: "(includes_str ?mime (js ''spreadsheet'') \<or> includes_str ?mime (js ''excel'')) \<and>
      \<not> startsWith ?mime (js ''image/'') \<longrightarrow> detectFileType lc f = Inr Excel"
    using fixed_media_types by (auto simp: detect_known_media known_media_type_def)
  have B5: "startsWith ?mime (js ''video/'') \<and>
      \<not> includes_str ?mime (js ''spreadsheet'') \<and> \<not> includes_str ?mime (js ''excel'')
        \<longrightarrow> detectFileType lc f = Inr Video"
    using fixed_media_types video_not_image [of ?mime]
    by (auto simp: detect_known_media known_media_type_def)
  have B6: "?mime = js ''text/markdown'' \<longrightarrow> detectFileType lc f = Inr Markdown"
    by (simp add: detect_known_media known_media_type_def fixed_media_types)
  have B7: "startsWith ?mime (js ''text/'') \<and> ?mime \<noteq> js ''text/csv'' \<and> ?mime \<noteq> js ''text/markdown'' \<and>
      \<not> includes_str ?mime (js ''spreadsheet'') \<and> \<not> includes_str ?mime (js ''excel'')
        \<longrightarrow> detectFileType lc f = Inr Text"
    using fixed_media_types text_not_image [of ?mime] text_not_video [of ?mime]
    by (auto simp: detect_known_media known_media_type_def)
  have C: "\<not> known_media_type ?mime \<longrightarrow>
        (\<forall>(e, t) \<in> set extension_table.
           endsWith (lc (file_name f)) (js e) \<longrightarrow> detectFileType lc f = Inr t)"
    using detect_by_extension [of lc f] by blast
  have D: "\<not> known_media_type ?mime \<and> \<not> known_extension (lc (file_name f)) \<longrightarrow>
        detectFileType lc f =
          Inl (Error (js ''Unsupported file type: '' @ (if ?mime = [] then lc (file_name f) else ?mime)))"
    using detect_unsupported [of lc f] by blast
  from A B1 B2 B3 B4 B5 B6 B7 C D show ?thesis unfolding Let_def by blast
qed

theorem detectFileType_classifies_witness:
  "startsWith (ascii_lower (file_type csv_named_png)) (js ''image/'') \<and>
   endsWith (ascii_lower (file_name csv_named_png)) (js ''.csv'') \<and>
   detectFileType ascii_lower csv_named_png = Inr Image \<and>
   \<not> known_media_type (ascii_lower (file_type untyped_markdown)) \<and>
   endsWith (ascii_lower (file_name untyped_markdown)) (js ''.md'') \<and>
   detectFileType ascii_lower untyped_markdown = Inr Markdown \<and>
   \<not> known_media_type (ascii_lower (file_type zip_file)) \<and>
   \<not> known_extension (ascii_lower (file_name zip_file)) \<and>
   detectFileType ascii_lower zip_file = Inl (Error (js ''Unsupported file type: application/zip''))"
proof -
  have a: "startsWith (ascii_lower (file_type csv_named_png)) (js ''image/'')"
    "endsWith (ascii_lower (file_name csv_named_png)) (js ''.csv'')"
    by code_simp+
  have b: "\<not> known_media_type (ascii_lower (file_type untyped_markdown))"
    "endsWith (ascii_lower (file_name untyped_markdown)) (js ''.md'')"
    by code_simp+
  have c: "\<not> known_media_type (ascii_lower (file_type zip_file))"
    "\<not> known_extension (ascii_lower (file_name zip_file))"
    by code_simp+
  have m: "(''.md'', Markdown) \<in> set extension_table" by (simp add: extension_table_def)
  have e: "js ''Unsupported file type: '' @ ascii_lower (file_type zip_file) = js ''Unsupported file type: application/zip''"
     "ascii_lower (file_type zip_file) \<noteq> []"
    by code_simp+
  from detectFileType_classifies [of ascii_lower csv_named_png] a
  have 1: "detectFileType ascii_lower csv_named_png = Inr Image" unfolding Let_def by blast
  from detectFileType_classifies [of ascii_lower untyped_markdown] b m
  have 2: "detectFileType ascii_lower untyped_markdown = Inr Markdown" unfolding Let_def by blast
  from detectFileType_classifies [of ascii_lower zip_file] c e
  have 3: "detectFileType ascii_lower zip_file = Inl (Error (js ''Unsupported file type: application/zip''))"
    unfolding Let_def by simp
  from a b c 1 2 3 show ?thesis by blast
qed


section \<open>Output registry\<close>

lemma registry_ids:
  "map config_id (Object_values OUTPUT_REGISTRY) = validTypes @ [Auto]"
  by (simp add: OUTPUT_REGISTRY_def Object_values_def validTypes_def)

lemma registry_keys: "map fst OUTPUT_REGISTRY = map config_id (Object_values OUTPUT_REGISTRY)"
  by (simp add: OUTPUT_REGISTRY_def Object_values_def)

lemma registry_distinct: "distinct (Object_values OUTPUT_REGISTRY)"
proof -
  have "distinct (map config_id (Object_values OUTPUT_REGISTRY))"
    by (simp add: registry_ids validTypes_def)
  then show ?thesis by (rule distinct_map [THEN iffD1, THEN conjunct1])
qed

text \<open>
  Claim C9: for every file type \<open>t\<close>, \<open>getApplicableOutputs t\<close> holds exactly the
  entries of the registry that are not the \<open>auto\<close> entry and whose \<open>applicableInputs\<close>
  contain \<open>t\<close>; all of them are among the nine concrete output types; and they come,
  each once, in the order in which the registry declares them.
\<close>

theorem getApplicableOutputs_exact:
  "set (getApplicableOutputs t) =
     {c \<in> set (Object_values OUTPUT_REGISTRY). config_id c \<noteq> Auto \<and> t \<in> set (applicableInputs c)} \<and>
   (\<forall>c \<in> set (getApplicableOutputs t). config_id c \<in> set validTypes) \<and>
   subseq (getApplicableOutputs t) (Object_values OUTPUT_REGISTRY) \<and>
   distinct (getApplicableOutputs t)"
proof -
  have 1: "set (getApplicableOutputs t) =
     {c \<in> set (Object_values OUTPUT_REGISTRY). config_id c \<noteq> Auto \<and> t \<in> set (applicableInputs c)}"
    by (simp add: getApplicableOutputs_def)
  have 2: "\<forall>c \<in> set (getApplicableOutputs t). config_id c \<in> set validTypes"
  proof
    fix c assume "c \<in> set (getApplicableOutputs t)"
    then have c: "c \<in> set (Object_values OUTPUT_REGISTRY)" "config_id c \<noteq> Auto"
      by (simp_all add: getApplicableOutputs_def)
    then have "config_id c \<in> set (map config_id (Object_values OUTPUT_REGISTRY))" by simp
    with c(2) show "config_id c \<in> set validTypes" by (simp add: registry_ids)
  qed
  have 3: "subseq (getApplicableOutputs t) (Object_values OUTPUT_REGISTRY)"
    by (simp add: getApplicableOutputs_def)
  have 4: "distinct (getApplicableOutputs t)"
    using registry_distinct by (simp add: getApplicableOutputs_def)
  from 1 2 3 4 show ?thesis by blast
qed

theorem getApplicableOutputs_exact_witness:
  "map config_id (getApplicableOutputs Image) = [DamageDetective, InspectionWalkthrough] \<and>
   set (getApplicableOutputs Image) \<subseteq> set (Object_values OUTPUT_REGISTRY) \<and>
   subseq (getApplicableOutputs Image) (Object_values OUTPUT_REGISTRY) \<and>
   getApplicableOutputs Video = []"
proof -
  have a: "map config_id (getApplicableOutputs Image) = [DamageDetective, InspectionWalkthrough]"
    by (simp add: getApplicableOutputs_def OUTPUT_REGISTRY_def Object_values_def)
  have b: "getApplicableOutputs Video = []"
    by (simp add: getApplicableOutputs_def OUTPUT_REGISTRY_def Object_values_def)
  from getApplicableOutputs_exact [of Image] a b show ?thesis by blast
qed


section \<open>CSV rows and tabular metadata\<close>

lemma Object_keys_assign:
  "set (Object_keys (assign row k v)) =
     (if k = js ''__proto__'' then set (Object_keys row) else insert k (set (Object_keys row)))"
  by (simp add: assign_def Object_keys_def dom_update)

lemma distinct_assign:
  "distinct (Object_keys row) \<Longrightarrow> distinct (Object_keys (assign row k v))"
  by (simp add: assign_def Object_keys_def distinct_update)

lemma forEach_header_keys:
  "set (Object_keys (forEach_header hs idx vals row)) =
     set (Object_keys row) \<union> (set hs - {js ''__proto__''})"
  by (induction hs arbitrary: idx row) (auto simp: Let_def Object_keys_assign)

lemma forEach_header_distinct:
  "distinct (Object_keys row) \<Longrightarrow> distinct (Object_keys (forEach_header hs idx vals row))"
  by (induction hs arbitrary: idx row) (simp_all add: Let_def distinct_assign)

lemma row_keys:
  "set (Object_keys (forEach_header headers 0 vals [])) = set headers - {js ''__proto__''}"
  "distinct (Object_keys (forEach_header headers 0 vals []))"
  using forEach_header_keys [of headers 0 vals "[]"] forEach_header_distinct [of "[]" headers 0 vals]
  by (simp_all add: Object_keys_def)

lemma row_key_count:
  assumes "distinct headers" "js ''__proto__'' \<notin> set headers"
  shows "length (Object_keys (forEach_header headers 0 vals [])) = length headers"
proof -
  have "length (Object_keys (forEach_header headers 0 vals [])) =
        card (set (Object_keys (forEach_header headers 0 vals [])))"
    using row_keys(2) by (simp add: distinct_card)
  also have "\<dots> = card (set headers)" using assms(2) by (simp add: row_keys(1))
  also have "\<dots> = length headers" using assms(1) by (simp add: distinct_card)
  finally show ?thesis .
qed

lemma map_of_assign:
  "map_of (assign row k v) k' =
     (if k = js ''__proto__'' then map_of row k' else if k' = k then Some v else map_of row k')"
  by (simp add: assign_def update_conv')

lemma forEach_header_other:
  "h \<notin> set hs \<Longrightarrow> map_of (forEach_header hs idx vals row) h = map_of row h"
  by (induction hs arbitrary: idx row) (auto simp: Let_def map_of_assign)

lemma forEach_header_lookup:
  assumes "distinct hs" "i < length hs" "hs ! i \<noteq> js ''__proto__''"
  shows "map_of (forEach_header hs idx vals row) (hs ! i) =
           Some (coerce (or_else (at_index vals (idx + i)) []))"
  using assms
proof (induction hs arbitrary: idx row i)
  case Nil
  then show ?case by simp
next
  case (Cons h hs)
  show ?case
  proof (cases i)
    case 0
    with Cons.prems show ?thesis
      by (simp add: Let_def forEach_header_other map_of_assign)
  next
    case (Suc j)
    with Cons.prems Cons.IH [of j "Suc idx"] show ?thesis
      by (simp add: Let_def)
  qed
qed

lemma coerce_empty: "coerce [] = Str []"
  by (simp add: coerce_def parseFloat_def trimStart_def take_sign_def startsWith_def js_def fraction_part_def)

lemma at_index_beyond: "length vals \<le> i \<Longrightarrow> or_else (at_index vals i) [] = []"
  by (simp add: at_index_def or_else_def)


lemma csv_data_rows:
  "data (processCsv fmt f) =
     Some (map (\<lambda>line. forEach_header (csv_headers f) 0 (parseCsvLine line) [])
             (tl (csv_lines (file_text f))))"
  by (simp add: processCsv_def csv_headers_def no_content_def Let_def split: list.splits)

lemma csv_row_shape:
  assumes "row \<in> set (the (data (processCsv fmt f)))"
  shows "set (Object_keys row) = set (csv_headers f) - {js ''__proto__''}"
    and "distinct (Object_keys row)"
    and "\<exists>line \<in> set (tl (csv_lines (file_text f))).
           \<forall>i < length (csv_headers f). distinct (csv_headers f) \<longrightarrow>
             csv_headers f ! i \<noteq> js ''__proto__'' \<longrightarrow>
             map_of row (csv_headers f ! i) =
               Some (coerce (or_else (at_index (parseCsvLine line) i) []))"
proof -
  from assms obtain line where line: "line \<in> set (tl (csv_lines (file_text f)))"
    and row: "row = forEach_header (csv_headers f) 0 (parseCsvLine line) []"
    by (auto simp: csv_data_rows)
  show "set (Object_keys row) = set (csv_headers f) - {js ''__proto__''}"
    unfolding row by (rule row_keys)
  show "distinct (Object_keys row)"
    unfolding row by (rule row_keys)
  from line show "\<exists>line \<in> set (tl (csv_lines (file_text f))).
           \<forall>i < length (csv_headers f). distinct (csv_headers f) \<longrightarrow>
             csv_headers f ! i \<noteq> js ''__proto__'' \<longrightarrow>
             map_of row (csv_headers f ! i) =
               Some (coerce (or_else (at_index (parseCsvLine line) i) []))"
    unfolding row using forEach_header_lookup [of "csv_headers f" _ 0] by auto
qed

text \<open>
  Claim C8, as the spec states it, fails: for a CSV file with a header line and no data
  line the column count is undefined, while there are two headers.
\<close>

theorem columnCount_header_only_counterexample:
  "length (csv_headers header_only_csv) = 2 \<and>
   columnCount (extractMetadata header_only_csv Csv (processCsv sample_format header_only_csv)) = None \<and>
   columnCount (extractMetadata header_only_csv Csv (processCsv sample_format header_only_csv))
     \<noteq> Some (length (csv_headers header_only_csv))"
  by code_simp

text \<open>
  Claim C8, amended.  For a CSV file, \<open>rowCount\<close> is the number of data lines, that is
  the length of \<open>data\<close>; \<open>columnCount\<close> is undefined when there is no data line, and is
  the number of headers when there is a data line and the headers are pairwise distinct
  and none of them is \<open>__proto__\<close>.  For an Excel file, \<open>rowCount\<close> is the number of
  rows of the sheet, and \<open>columnCount\<close> is the number of keys of the first row, which
  are the headers, or undefined when there is no row.
\<close>

theorem tabular_metadata_counts:
  "(let content = processCsv fmt f;
        md = extractMetadata f Csv content;
        ls = csv_lines (file_text f)
    in rowCount md = Some (length ls - 1) \<and>
       rowCount md = map_option length (data content) \<and>
       (length ls \<le> 1 \<longrightarrow> columnCount md = None) \<and>
       (1 < length ls \<and> distinct (csv_headers f) \<and> js ''__proto__'' \<notin> set (csv_headers f)
          \<longrightarrow> columnCount md = Some (length (csv_headers f)))) \<and>
   (\<exists>content. processExcel fmt (Inr jsonData) = Inr content \<and>
      rowCount (extractMetadata f Excel content) = Some (length jsonData) \<and>
      columnCount (extractMetadata f Excel content) =
        (case jsonData of [] \<Rightarrow> None | row # _ \<Rightarrow> Some (length (Object_keys row))))"
proof -
  let ?ls = "csv_lines (file_text f)"
  let ?md = "extractMetadata f Csv (processCsv fmt f)"
  have r: "rowCount ?md = Some (length ?ls - 1)"
    by (simp add: extractMetadata_def csv_data_rows)
  have r': "rowCount ?md = map_option length (data (processCsv fmt f))"
    by (simp add: extractMetadata_def)
  have c0: "length ?ls \<le> 1 \<longrightarrow> columnCount ?md = None"
    by (cases ?ls; cases "tl ?ls") (auto simp: extractMetadata_def csv_data_rows)
  have c1: "1 < length ?ls \<and> distinct (csv_headers f) \<and> js ''__proto__'' \<notin> set (csv_headers f)
          \<longrightarrow> columnCount ?md = Some (length (csv_headers f))"
  proof (intro impI, elim conjE)
    assume len: "1 < length ?ls" and d: "distinct (csv_headers f)"
      and p: "js ''__proto__'' \<notin> set (csv_headers f)"
    from len obtain l l' ls' where ls: "?ls = l # l' # ls'"
      by (cases ?ls; cases "tl ?ls") auto
    then have "columnCount ?md =
       Some (length (Object_keys (forEach_header (csv_headers f) 0 (parseCsvLine l') [])))"
      by (simp add: extractMetadata_def csv_data_rows)
    with d p show "columnCount ?md = Some (length (csv_headers f))"
      by (simp add: row_key_count)
  qed
  have x: "\<exists>content. processExcel fmt (Inr jsonData) = Inr content \<and>
      rowCount (extractMetadata f Excel content) = Some (length jsonData) \<and>
      columnCount (extractMetadata f Excel content) =
        (case jsonData of [] \<Rightarrow> None | row # _ \<Rightarrow> Some (length (Object_keys row)))"
    by (simp add: processExcel_def extractMetadata_def no_content_def Let_def split: list.splits)
  from r r' c0 c1 x show ?thesis unfolding Let_def by blast
qed

theorem tabular_metadata_counts_witness:
  "length (csv_lines (file_text sales_csv)) = 3 \<and>
   csv_headers sales_csv = [js ''name'', js ''signups'', js ''revenue''] \<and>
   distinct (csv_headers sales_csv) \<and> js ''__proto__'' \<notin> set (csv_headers sales_csv) \<and>
   rowCount (extractMetadata sales_csv Csv (processCsv sample_format sales_csv)) = Some 2 \<and>
   columnCount (extractMetadata sales_csv Csv (processCsv sample_format sales_csv)) = Some 3 \<and>
   length (csv_lines (file_text header_only_csv)) = 1 \<and>
   columnCount (extractMetadata header_only_csv Csv (processCsv sample_format header_only_csv)) = None"
proof -
  have a: "length (csv_lines (file_text sales_csv)) = 3"
    "csv_headers sales_csv = [js ''name'', js ''signups'', js ''revenue'']"
    by code_simp+
  have b: "distinct (csv_headers sales_csv)" "js ''__proto__'' \<notin> set (csv_headers sales_csv)"
    by code_simp+
  have c: "length (csv_lines (file_text header_only_csv)) = 1" by code_simp
  from tabular_metadata_counts [of sample_format sales_csv "[]"] a b
  have 1: "rowCount (extractMetadata sales_csv Csv (processCsv sample_format sales_csv)) = Some 2"
    "columnCount (extractMetadata sales_csv Csv (processCsv sample_format sales_csv)) = Some 3"
    unfolding Let_def by simp_all
  from tabular_metadata_counts [of sample_format header_only_csv "[]"] c
  have 2: "columnCount (extractMetadata header_only_csv Csv (processCsv sample_format header_only_csv)) = None"
    unfolding Let_def by simp
  from a b c 1 2 show ?thesis by blast
qed

text \<open>
  Claim C4 at the values \<open>5 apples\<close> and \<open>1,234\<close> (the latter quoted in the file):
  \<open>parseFloat\<close> accepts a numeric prefix, so the cells are stored as the numbers 5 and
  1, not as the original strings.
\<close>

theorem processCsv_numeric_prefix:
  "data (processCsv sample_format prefix_csv) =
     Some [ [(js ''item'', Num (js ''5'')), (js ''price'', Num (js ''1''))] ] \<and>
   parseCsvLine (js ''5 apples,'' @ [0x22] @ js ''1,234'' @ [0x22]) = [js ''5 apples'', js ''1,234''] \<and>
   parseFloat (js ''5 apples'') = Some (js ''5'') \<and>
   parseFloat (js ''1,234'') = Some (js ''1'')"
  by code_simp

text \<open>
  Claim C10 at a file whose first header is \<open>__proto__\<close>: the assignment for that header
  creates no property, so the row has the single key \<open>qty\<close> although there are two
  headers.  For any other header the rows are as the claim says, see \<open>csv_row_shape\<close>,
  \<open>coerce_empty\<close> and \<open>at_index_beyond\<close>.
\<close>

theorem processCsv_proto_header:
  "csv_headers proto_csv = [js ''__proto__'', js ''qty''] \<and>
   data (processCsv sample_format proto_csv) = Some [ [(js ''qty'', Num (js ''2''))] ] \<and>
   map Object_keys (the (data (processCsv sample_format proto_csv))) = [ [js ''qty''] ]"
  by code_simp

section \<open>PDF pages\<close>

lemma extract_page_number: "extract_page pdf i = Inr p \<Longrightarrow> pageNumber p = i"
  by (auto simp: extract_page_def split: sum.splits)

lemma extract_page_text:
  "extract_page pdf i = Inr p \<Longrightarrow>
     \<exists>page items. getPage pdf i = Inr page \<and> getTextContent page = Inr items \<and>
       page_text p = page_text_of items"
  by (auto simp: extract_page_def split: sum.splits)

lemma pdf_loop_result:
  "pdf_loop pdf m i acc = Inr ps \<Longrightarrow>
     \<exists>qs. ps = acc @ qs \<and> length qs = Suc m - i \<and>
          (\<forall>k < length qs. extract_page pdf (i + k) = Inr (qs ! k))"
proof (induction pdf m i acc arbitrary: ps rule: pdf_loop.induct)
  case (1 pdf m i acc)
  show ?case
  proof (cases "i \<le> m")
    case False
    with "1.prems" show ?thesis by (simp add: pdf_loop.simps)
  next
    case True
    with "1.prems" obtain p where p: "extract_page pdf i = Inr p"
      and rest: "pdf_loop pdf m (Suc i) (acc @ [p]) = Inr ps"
      by (auto simp: pdf_loop.simps [of pdf m i acc] split: sum.splits)
    from "1.IH" [OF True p rest] obtain qs where qs: "ps = (acc @ [p]) @ qs"
      "length qs = Suc m - Suc i" "\<forall>k < length qs. extract_page pdf (Suc i + k) = Inr (qs ! k)"
      by blast
    have "\<forall>k < length (p # qs). extract_page pdf (i + k) = Inr ((p # qs) ! k)"
    proof (intro allI impI)
      fix k assume "k < length (p # qs)"
      then show "extract_page pdf (i + k) = Inr ((p # qs) ! k)"
        using p qs(3) by (cases k) auto
    qed
    moreover have "length (p # qs) = Suc m - i" using qs(2) True by simp
    moreover have "ps = acc @ (p # qs)" using qs(1) by simp
    ultimately show ?thesis by blast
  qed
qed

lemma pdf_loop_succeeds:
  "(\<And>j. i \<le> j \<Longrightarrow> j \<le> m \<Longrightarrow> \<exists>p. extract_page pdf j = Inr p) \<Longrightarrow>
     \<exists>ps. pdf_loop pdf m i acc = Inr ps"
proof (induction pdf m i acc rule: pdf_loop.induct)
  case (1 pdf m i acc)
  show ?case
  proof (cases "i \<le> m")
    case False
    then show ?thesis by (simp add: pdf_loop.simps)
  next
    case True
    with "1.prems" [of i] obtain p where p: "extract_page pdf i = Inr p" by auto
    have "\<exists>ps. pdf_loop pdf m (Suc i) (acc @ [p]) = Inr ps"
      using "1.IH" [OF True p] "1.prems" by simp
    with True p show ?thesis by (simp add: pdf_loop.simps [of pdf m i acc])
  qed
qed


lemma map_by_index: "map f xs = map (\<lambda>k. f (xs ! k)) [0..<length xs]"
proof -
  have "map f xs = map f (map ((!) xs) [0..<length xs])" by (simp only: map_nth)
  then show ?thesis by (simp add: comp_def del: map_nth)
qed

text \<open>
  Claim C5: for a document of more than 20 pages, the extraction succeeds whenever PDF.js
  delivers the first 20 pages, and whenever it succeeds \<open>pages\<close> has exactly 20 entries,
  numbered 1 to 20 in this order, the text of entry \<open>k\<close> is the normalised text of page
  \<open>k\<close> of the document, and \<open>text\<close> is the sequence, in the same order and separated by
  blank lines, of the marker \<open>[Page k]\<close>, a line break and the text of page \<open>k\<close>.  The
  bound 20 is a constant of \<open>processPdf\<close>, which has no argument for it.
\<close>

theorem processPdf_page_cap:
  assumes "20 < numPages pdf"
  shows
  "((\<forall>j \<in> {1..20}. \<exists>p. extract_page pdf j = Inr p) \<longrightarrow>
      (\<exists>content. processPdf (Some (Inr pdf)) = Inr content)) \<and>
   (\<forall>content. processPdf (Some (Inr pdf)) = Inr content \<longrightarrow>
      (\<exists>ps. pages content = Some ps \<and> length ps = 20 \<and>
         map pageNumber ps = [1..<21] \<and>
         (\<forall>k < 20. \<exists>page items. getPage pdf (Suc k) = Inr page \<and>
            getTextContent page = Inr items \<and> page_text (ps ! k) = page_text_of items) \<and>
         content_text content =
           Some (join [0x0A, 0x0A]
             (map (\<lambda>k. js ''[Page '' @ show_nat (Suc k) @ js '']'' @ [0x0A] @ page_text (ps ! k))
                [0..<20]))))"
proof -
  from assms have m: "min (numPages pdf) 20 = 20" by simp
  have 1: "(\<forall>j \<in> {1..20}. \<exists>p. extract_page pdf j = Inr p) \<longrightarrow>
      (\<exists>content. processPdf (Some (Inr pdf)) = Inr content)"
  proof
    assume ok: "\<forall>j \<in> {1..20}. \<exists>p. extract_page pdf j = Inr p"
    have "\<exists>ps. pdf_loop pdf 20 1 [] = Inr ps"
      by (rule pdf_loop_succeeds) (use ok in auto)
    then show "\<exists>content. processPdf (Some (Inr pdf)) = Inr content"
      by (auto simp: processPdf_def m)
  qed
  have 2: "\<forall>content. processPdf (Some (Inr pdf)) = Inr content \<longrightarrow>
      (\<exists>ps. pages content = Some ps \<and> length ps = 20 \<and>
         map pageNumber ps = [1..<21] \<and>
         (\<forall>k < 20. \<exists>page items. getPage pdf (Suc k) = Inr page \<and>
            getTextContent page = Inr items \<and> page_text (ps ! k) = page_text_of items) \<and>
         content_text content =
           Some (join [0x0A, 0x0A]
             (map (\<lambda>k. js ''[Page '' @ show_nat (Suc k) @ js '']'' @ [0x0A] @ page_text (ps ! k))
                [0..<20])))"
  proof (intro allI impI)
    fix content
    assume c: "processPdf (Some (Inr pdf)) = Inr content"
    then obtain ps where loop: "pdf_loop pdf 20 1 [] = Inr ps"
      and content: "content = no_content\<lparr>pages := Some ps, content_text := Some (fullText ps)\<rparr>"
      by (auto simp: processPdf_def m split: sum.splits)
    from pdf_loop_result [OF loop] have len: "length ps = 20"
      and each: "\<forall>k < 20. extract_page pdf (Suc k) = Inr (ps ! k)"
      by auto
    have num: "\<forall>k < 20. pageNumber (ps ! k) = Suc k"
      using each extract_page_number by blast
    have nums: "map pageNumber ps = [1..<21]"
    proof (rule nth_equalityI)
      show "length (map pageNumber ps) = length [1..<21]" using len by simp
    next
      fix i assume "i < length (map pageNumber ps)"
      then have i: "i < 20" using len by simp
      with num len show "map pageNumber ps ! i = [1..<21] ! i" by simp
    qed
    have ptexts: "\<forall>k < 20. \<exists>page items. getPage pdf (Suc k) = Inr page \<and>
            getTextContent page = Inr items \<and> page_text (ps ! k) = page_text_of items"
      using each extract_page_text by blast
    have "map (\<lambda>p. page_marker p @ [0x0A] @ page_text p) ps =
          map (\<lambda>k. page_marker (ps ! k) @ [0x0A] @ page_text (ps ! k)) [0..<20]"
      using map_by_index [of "\<lambda>p. page_marker p @ [0x0A] @ page_text p" ps] len by simp
    also have "\<dots> = map (\<lambda>k. js ''[Page '' @ show_nat (Suc k) @ js '']'' @ [0x0A] @ page_text (ps ! k)) [0..<20]"
      using num by (intro map_cong) (auto simp: page_marker_def)
    finally have full: "fullText ps = join [0x0A, 0x0A]
             (map (\<lambda>k. js ''[Page '' @ show_nat (Suc k) @ js '']'' @ [0x0A] @ page_text (ps ! k))
                [0..<20])"
      by (simp add: fullText_def)
    from content len nums ptexts full
    show "\<exists>ps. pages content = Some ps \<and> length ps = 20 \<and>
         map pageNumber ps = [1..<21] \<and>
         (\<forall>k < 20. \<exists>page items. getPage pdf (Suc k) = Inr page \<and>
            getTextContent page = Inr items \<and> page_text (ps ! k) = page_text_of items) \<and>
         content_text content =
           Some (join [0x0A, 0x0A]
             (map (\<lambda>k. js ''[Page '' @ show_nat (Suc k) @ js '']'' @ [0x0A] @ page_text (ps ! k))
                [0..<20]))"
      by (simp add: no_content_def)
  qed
  from 1 2 show ?thesis by blast
qed


theorem processPdf_page_cap_witness:
  "20 < numPages pdf21 \<and>
   map_option (map pageNumber) (pages (extracted (processPdf (Some (Inr pdf21))))) =
     Some [1, 2, 3, 4, 5, 6, 7, 8, 9, 10, 11, 12, 13, 14, 15, 16, 17, 18, 19, 20] \<and>
   map_option (take 28) (content_text (extracted (processPdf (Some (Inr pdf21))))) =
     Some (js ''[Page 1]'' @ [0x0A] @ js ''Roof page'' @ [0x0A, 0x0A] @ js ''[Page 2]'')"
proof -
  have n: "20 < numPages pdf21" by (simp add: pdf21_def)
  have ok: "\<forall>j \<in> {1..20}. \<exists>p. extract_page pdf21 j = Inr p"
    by (simp add: extract_page_def pdf21_def)
  from processPdf_page_cap [OF n] ok obtain content ps
    where c: "processPdf (Some (Inr pdf21)) = Inr content"
      and ps: "pages content = Some ps" "length ps = 20" "map pageNumber ps = [1..<21]"
    by blast
  have e: "[1..<21] = [1, 2, 3, 4, 5, 6, 7, 8, 9, 10, 11, 12, 13, 14, 15, 16, 17, 18, 19, 20::nat]"
    by code_simp
  have t: "map_option (take 28) (content_text (extracted (processPdf (Some (Inr pdf21))))) =
     Some (js ''[Page 1]'' @ [0x0A] @ js ''Roof page'' @ [0x0A, 0x0A] @ js ''[Page 2]'')"
    by code_simp
  from n c ps e t show ?thesis by (simp add: extracted_def)
qed

section \<open>Rounding to a double\<close>












section \<open>Video frames\<close>








lemma video_loop_NaN: "video_loop capture d NaN i acc = Some acc"
  by (subst video_loop.simps) simp










end
